theory Spec2Isabelle
  imports Main
begin

section \<open>Data model\<close>

text \<open>
  The engine of \<^verbatim>\<open>codex/app.js\<close> (lines 10 to 293). Sides are the constants
  \<^verbatim>\<open>B = 'b'\<close> (Sente) and \<^verbatim>\<open>W = 'w'\<close> (Gote); piece types are the one-letter strings of
  \<^verbatim>\<open>TYPES\<close>, written out here because the letter B is already the side.
\<close>

datatype side = B | W

datatype ptype = King | Rook | Bishop | Gold | Silver | Knight | Lance | Pawn

text \<open>A piece object \<^verbatim>\<open>{t, p, pr}\<close>: type, owner, promoted flag.\<close>

record piece =
  t :: ptype
  p :: side
  pr :: bool

text \<open>
  The board is an array of rows, each an array of cells, a cell being \<^verbatim>\<open>null\<close> or a piece.
  \<^verbatim>\<open>startPosition\<close> builds nine rows of nine cells, and every loop of the engine runs
  its indices over \<^verbatim>\<open>0 .. BOARD_SIZE - 1\<close>.
\<close>

type_synonym board = "piece option list list"

text \<open>A hand is an object keyed by piece type; a key may be absent.\<close>

type_synonym hand = "ptype \<rightharpoonup> int"

record position =
  board :: board
  hands :: "side \<Rightarrow> hand"
  turn :: side

text \<open>
  A move object is either \<^verbatim>\<open>{from, to, promote}\<close> or \<^verbatim>\<open>{drop:true, dropType, to}\<close>;
  squares are \<^verbatim>\<open>[row, column]\<close>.
\<close>

datatype move =
  BoardMove "nat \<times> nat" "nat \<times> nat" bool
| DropMove ptype "nat \<times> nat"

definition BOARD_SIZE :: nat where
  "BOARD_SIZE = 9"

definition TYPES :: "ptype list" where
  "TYPES = [King, Rook, Bishop, Gold, Silver, Knight, Lance, Pawn]"

definition PROMOTES_TO_GOLD :: "ptype \<Rightarrow> bool" where
  "PROMOTES_TO_GOLD x = (x \<in> set [Silver, Knight, Lance, Pawn])"

definition PROMOTABLE :: "ptype \<Rightarrow> bool" where
  "PROMOTABLE x = (x \<in> set [Rook, Bishop, Silver, Knight, Lance, Pawn])"

text \<open>Directions for Sente, who faces up (the row decreases).\<close>

fun DIRS :: "ptype \<Rightarrow> (int \<times> int) list" where
  "DIRS King = [(-1,-1),(-1,0),(-1,1),(0,-1),(0,1),(1,-1),(1,0),(1,1)]"
| "DIRS Gold = [(-1,-1),(-1,0),(-1,1),(0,-1),(0,1),(1,0)]"
| "DIRS Silver = [(-1,-1),(-1,0),(-1,1),(1,-1),(1,1)]"
| "DIRS Knight = [(-2,-1),(-2,1)]"
| "DIRS Lance = [(-1,0)]"
| "DIRS Pawn = [(-1,0)]"
| "DIRS Rook = [(-1,0),(1,0),(0,-1),(0,1)]"
| "DIRS Bishop = [(-1,-1),(-1,1),(1,-1),(1,1)]"

section \<open>Geometry and promotion\<close>

definition inBounds :: "int \<Rightarrow> int \<Rightarrow> bool" where
  "inBounds r c = (r \<ge> 0 \<and> r < int BOARD_SIZE \<and> c \<ge> 0 \<and> c < int BOARD_SIZE)"

fun enemy :: "side \<Rightarrow> side" where
  "enemy B = W"
| "enemy W = B"

text \<open>
  \<^verbatim>\<open>board[r][c]\<close> for indices that are natural numbers. Inside the grid it is the cell.
  A column past the end of an existing row reads \<^verbatim>\<open>undefined\<close>, which every test of
  the engine treats as it treats \<^verbatim>\<open>null\<close>. A row past the end makes the source throw a
  TypeError; the engine only reads rows below \<^verbatim>\<open>BOARD_SIZE\<close>, so on a board of nine rows
  that branch is never taken, and the functions that read from caller-supplied squares
  (\<open>makeMove\<close>) test for it before they call \<open>cellAt\<close>. The functions built on \<open>cellAt\<close>
  are therefore the source's on boards of at least nine rows, and the properties that
  depend on it are stated for such boards; \<open>cellE\<close> below is the read with the exception.
\<close>

definition cellAt :: "board \<Rightarrow> nat \<Rightarrow> nat \<Rightarrow> piece option" where
  "cellAt b r c = (if r < length b \<and> c < length (b ! r) then b ! r ! c else None)"

definition startPosition :: board where
  "startPosition =
    (let back = (\<lambda>pl. map (\<lambda>x. Some \<lparr>t = x, p = pl, pr = False\<rparr>)
                   [Lance, Knight, Silver, Gold, King, Gold, Silver, Knight, Lance]);
         second = (\<lambda>pl. map (map_option (\<lambda>x. \<lparr>t = x, p = pl, pr = False\<rparr>)));
         pawns = (\<lambda>pl. replicate 9 (Some \<lparr>t = Pawn, p = pl, pr = False\<rparr>));
         empty = replicate BOARD_SIZE None
     in [back W,
         second W [None, Some Rook, None, None, None, None, None, Some Bishop, None],
         pawns W,
         empty, empty, empty,
         pawns B,
         second B [None, Some Bishop, None, None, None, None, None, Some Rook, None],
         back B])"

definition rotateFor :: "side \<Rightarrow> int \<times> int \<Rightarrow> int \<times> int" where
  "rotateFor player d = (case d of (dr, dc) \<Rightarrow> if player = B then (dr, dc) else (- dr, - dc))"

definition isPromotionZone :: "side \<Rightarrow> nat \<Rightarrow> bool" where
  "isPromotionZone player row = (if player = B then row \<le> 2 else row \<ge> 6)"

definition mustPromote :: "piece \<Rightarrow> nat \<Rightarrow> bool" where
  "mustPromote pc toRow =
    (if t pc = Pawn \<or> t pc = Lance then (p pc = B \<and> toRow = 0) \<or> (p pc = W \<and> toRow = 8)
     else if t pc = Knight then (p pc = B \<and> toRow \<le> 1) \<or> (p pc = W \<and> toRow \<ge> 7)
     else False)"

definition promotePiece :: "piece \<Rightarrow> piece" where
  "promotePiece pc =
    (if \<not> PROMOTABLE (t pc) then pc
     else if t pc = Rook then pc\<lparr>pr := True\<rparr>
     else if t pc = Bishop then pc\<lparr>pr := True\<rparr>
     else if PROMOTES_TO_GOLD (t pc) then pc\<lparr>pr := True\<rparr>
     else pc)"

text \<open>When captured, a piece is demoted and changes owner.\<close>

definition demote :: "piece \<Rightarrow> piece" where
  "demote pc = \<lparr>t = t pc, p = enemy (p pc), pr = False\<rparr>"

definition goldLikeDirs :: "(int \<times> int) list" where
  "goldLikeDirs = DIRS Gold"

definition dirsFor :: "piece \<Rightarrow> (int \<times> int) list" where
  "dirsFor pc =
    (if pr pc then
       (if t pc = Rook then DIRS Rook
        else if t pc = Bishop then DIRS Bishop
        else goldLikeDirs)
     else DIRS (t pc))"

text \<open>
  \<^verbatim>\<open>SLIDERS\<close> holds R, B, L and the keys +R and +B; the field \<^verbatim>\<open>t\<close> never carries a plus
  sign, so membership of \<^verbatim>\<open>piece.t\<close> is membership in R, B, L.
\<close>

definition isSlider :: "piece \<Rightarrow> bool" where
  "isSlider pc =
    (if pr pc \<and> (t pc = Rook \<or> t pc = Bishop) then True
     else t pc \<in> set [Rook, Bishop, Lance])"

section \<open>Pseudo-move generation\<close>

text \<open>
  The closure \<^verbatim>\<open>tryPush\<close> of \<^verbatim>\<open>genPseudoMoves\<close>: the target squares it appends (the
  \<^verbatim>\<open>from\<close> field is always the square of the moving piece and is added at the end),
  and its boolean result.
\<close>

definition tryPush :: "board \<Rightarrow> piece \<Rightarrow> int \<Rightarrow> int \<Rightarrow> (nat \<times> nat) list \<times> bool" where
  "tryPush b pc rr cc =
    (if \<not> inBounds rr cc then ([], False)
     else case cellAt b (nat rr) (nat cc) of
            None \<Rightarrow> ([(nat rr, nat cc)], True)
          | Some target \<Rightarrow> (if p target \<noteq> p pc then [(nat rr, nat cc)] else [], False))"

text \<open>
  The slider loop \<^verbatim>\<open>while(true){ if(!tryPush(rr,cc)) break; rr+=dr; cc+=dc; }\<close>.
  Every vector of \<^verbatim>\<open>DIRS\<close> is non-zero. With the zero vector the loop would test the
  square of the moving piece itself, which is occupied by a piece of the same owner, so
  \<^verbatim>\<open>tryPush\<close> answers false at once: inside \<^verbatim>\<open>genPseudoMoves\<close> the loop ends for every
  vector. The walk below continues exactly when \<^verbatim>\<open>tryPush\<close> answers true and the vector
  is non-zero.
\<close>

function slide :: "board \<Rightarrow> piece \<Rightarrow> int \<Rightarrow> int \<Rightarrow> int \<Rightarrow> int \<Rightarrow> (nat \<times> nat) list" where
  "slide b pc dr dc rr cc =
    (case tryPush b pc rr cc of
       (ms, go) \<Rightarrow>
         if go \<and> (dr \<noteq> 0 \<or> dc \<noteq> 0) then ms @ slide b pc dr dc (rr + dr) (cc + dc) else ms)"
  by pat_completeness auto
termination
  apply (relation "measure (\<lambda>(b, pc, dr, dc, rr, cc).
         if dr > 0 then nat (9 - rr) else if dr < 0 then nat (rr + 1)
         else if dc > 0 then nat (9 - cc) else nat (cc + 1))")
   apply simp
  apply (auto simp: tryPush_def inBounds_def BOARD_SIZE_def split: if_splits option.splits)
  done

declare slide.simps [simp del]

text \<open>The extra king steps of a dragon or a horse: pushed when in bounds and not own piece.\<close>

definition extraStep :: "board \<Rightarrow> piece \<Rightarrow> nat \<Rightarrow> nat \<Rightarrow> int \<times> int \<Rightarrow> (nat \<times> nat) list" where
  "extraStep b pc r c d =
    (case d of (dr, dc) \<Rightarrow>
       let rr = int r + dr; cc = int c + dc in
       if inBounds rr cc \<and>
          (case cellAt b (nat rr) (nat cc) of None \<Rightarrow> True | Some x \<Rightarrow> p x \<noteq> p pc)
       then [(nat rr, nat cc)] else [])"

text \<open>The promotion choices of one raw move of the piece on \<open>(r, c)\<close> to \<open>(tr, tc)\<close>.\<close>

definition promoChoices :: "piece \<Rightarrow> nat \<Rightarrow> nat \<Rightarrow> nat \<times> nat \<Rightarrow> move list" where
  "promoChoices piece0 r c dest =
    (case dest of (tr, tc) \<Rightarrow>
       if PROMOTABLE (t piece0) then
         (let enters = (isPromotionZone (p piece0) tr \<or> isPromotionZone (p piece0) r);
              forced = mustPromote piece0 tr
          in if forced then [BoardMove (r, c) (tr, tc) True]
             else if enters then [BoardMove (r, c) (tr, tc) True, BoardMove (r, c) (tr, tc) False]
             else [BoardMove (r, c) (tr, tc) False])
       else [BoardMove (r, c) (tr, tc) False])"

definition rawTargets :: "board \<Rightarrow> piece \<Rightarrow> nat \<Rightarrow> nat \<Rightarrow> (nat \<times> nat) list" where
  "rawTargets b pc r c =
    (let baseDirs = map (rotateFor (p pc)) (dirsFor pc);
         sliding = isSlider pc
     in concat (map (\<lambda>(dr, dc).
                  if sliding then slide b pc dr dc (int r + dr) (int c + dc)
                  else fst (tryPush b pc (int r + dr) (int c + dc))) baseDirs)
        @ (if pr pc \<and> t pc = Rook
           then concat (map (\<lambda>v. extraStep b pc r c (rotateFor (p pc) v))
                          [(-1,-1),(-1,1),(1,-1),(1,1)])
           else [])
        @ (if pr pc \<and> t pc = Bishop
           then concat (map (\<lambda>v. extraStep b pc r c (rotateFor (p pc) v))
                          [(-1,0),(1,0),(0,-1),(0,1)])
           else []))"

definition genPseudoMoves :: "board \<Rightarrow> nat \<Rightarrow> nat \<Rightarrow> move list" where
  "genPseudoMoves b r c =
    (case cellAt b r c of
       None \<Rightarrow> []
     | Some pc \<Rightarrow> concat (map (promoChoices pc r c) (rawTargets b pc r c)))"

section \<open>Check detection\<close>

text \<open>The squares in the order of the nested loops over \<open>r\<close> and \<open>c\<close>.\<close>

definition allSquares :: "(nat \<times> nat) list" where
  "allSquares = concat (map (\<lambda>r. map (\<lambda>c. (r, c)) [0..<BOARD_SIZE]) [0..<BOARD_SIZE])"

definition findKing :: "board \<Rightarrow> side \<Rightarrow> (nat \<times> nat) option" where
  "findKing b player =
    find (\<lambda>(r, c). case cellAt b r c of
                     None \<Rightarrow> False
                   | Some pc \<Rightarrow> p pc = player \<and> t pc = King) allSquares"

fun moveTo :: "move \<Rightarrow> nat \<times> nat" where
  "moveTo (BoardMove src dest promote) = dest"
| "moveTo (DropMove x dest) = dest"

definition attacksSquare :: "board \<Rightarrow> side \<Rightarrow> nat \<Rightarrow> nat \<Rightarrow> bool" where
  "attacksSquare b attacker tr tc =
    list_ex (\<lambda>(r, c). case cellAt b r c of
                        None \<Rightarrow> False
                      | Some pc \<Rightarrow> p pc = attacker \<and>
                          list_ex (\<lambda>m. fst (moveTo m) = tr \<and> snd (moveTo m) = tc)
                            (genPseudoMoves b r c)) allSquares"

definition isCheck :: "board \<Rightarrow> side \<Rightarrow> bool" where
  "isCheck b player =
    (case findKing b player of
       None \<Rightarrow> False
     | Some (kr, kc) \<Rightarrow> attacksSquare b (enemy player) kr kc)"

section \<open>Applying a move\<close>

text \<open>\<^verbatim>\<open>hands[turn][t]||0\<close>: an absent key counts as zero.\<close>

definition hcount :: "hand \<Rightarrow> ptype \<Rightarrow> int" where
  "hcount h x = (case h x of None \<Rightarrow> 0 | Some n \<Rightarrow> n)"

text \<open>
  The assignment \<^verbatim>\<open>row[c] = v\<close>: inside the row it replaces the cell, past the end
  JavaScript lengthens the array and leaves holes, which read as \<^verbatim>\<open>undefined\<close>.
\<close>

definition rowSet :: "piece option list \<Rightarrow> nat \<Rightarrow> piece option \<Rightarrow> piece option list" where
  "rowSet row c v =
    (if c < length row then row[c := v] else row @ replicate (c - length row) None @ [v])"

text \<open>\<^verbatim>\<open>board[r][c] = v\<close> for an existing row \<open>r\<close>.\<close>

definition setCell :: "board \<Rightarrow> nat \<Rightarrow> nat \<Rightarrow> piece option \<Rightarrow> board" where
  "setCell b r c v = b[r := rowSet (b ! r) c v]"

text \<open>
  What \<^verbatim>\<open>makeMove\<close> can do other than return a position. \<open>TypeError\<close>: the source
  throws, because \<^verbatim>\<open>board[r]\<close> is \<^verbatim>\<open>undefined\<close> and is indexed. \<open>NotAPiece\<close>: the source
  throws nothing, but the square \<^verbatim>\<open>from\<close> is empty, \<^verbatim>\<open>{...piece}\<close> is the object \<^verbatim>\<open>{}\<close>
  and that object is stored on the board; it has no type and no owner, so the result is
  not a position of this data model. \<open>NotAPosition\<close> is used by the model over the
  explicit store only: the argument is not the address of a position object.
\<close>

datatype error = TypeError | NotAPiece | NotAPosition

text \<open>
  \<^verbatim>\<open>deepClone\<close> is a JSON round trip; on a position (arrays, objects, strings, booleans
  and integers) it yields an equal value, so the clone \<open>ns\<close> starts as \<open>s\<close>.
  The explicit store of the last section models the copy itself. The counts of a hand are
  JavaScript numbers; the model holds them as integers, which is exact as long as they
  stay within \<^verbatim>\<open>Number.MAX_SAFE_INTEGER\<close> in magnitude (see \<open>handsSafe\<close> below).
\<close>

definition makeMove :: "position \<Rightarrow> move \<Rightarrow> error + position" where
  "makeMove s m =
    (case m of
       DropMove x (r, c) \<Rightarrow>
         if r \<ge> length (board s) then Inl TypeError
         else Inr \<lparr>board = setCell (board s) r c (Some \<lparr>t = x, p = turn s, pr = False\<rparr>),
                  hands = (hands s)(turn s := (hands s (turn s))(x \<mapsto> hcount (hands s (turn s)) x - 1)),
                  turn = enemy (turn s)\<rparr>
     | BoardMove (fr, fc) (tr, tc) promote \<Rightarrow>
         if fr \<ge> length (board s) \<or> tr \<ge> length (board s) then Inl TypeError
         else case cellAt (board s) fr fc of
                None \<Rightarrow> Inl NotAPiece
              | Some pc \<Rightarrow>
                  let captured = cellAt (board s) tr tc;
                      hs = (case captured of
                              None \<Rightarrow> hands s
                            | Some cp \<Rightarrow>
                                (hands s)(turn s := (hands s (turn s))
                                   (t (demote cp) \<mapsto> hcount (hands s (turn s)) (t (demote cp)) + 1)));
                      moving = (if promote then promotePiece pc else pc)
                  in Inr \<lparr>board = setCell (setCell (board s) tr tc (Some moving)) fr fc None,
                          hands = hs,
                          turn = enemy (turn s)\<rparr>)"

section \<open>All pseudo-moves, drops, legal moves\<close>

definition hasUnpromotedPawnOnFile :: "board \<Rightarrow> side \<Rightarrow> nat \<Rightarrow> bool" where
  "hasUnpromotedPawnOnFile b player file =
    list_ex (\<lambda>r. case cellAt b r file of
                   None \<Rightarrow> False
                 | Some pc \<Rightarrow> p pc = player \<and> t pc = Pawn \<and> \<not> pr pc) [0..<BOARD_SIZE]"

text \<open>Whether the body of the inner loop of \<^verbatim>\<open>genDrops\<close> reaches \<^verbatim>\<open>list.push\<close>.\<close>

definition dropAllowed :: "position \<Rightarrow> ptype \<Rightarrow> nat \<times> nat \<Rightarrow> bool" where
  "dropAllowed s x sq =
    (case sq of (r, c) \<Rightarrow>
       if cellAt (board s) r c \<noteq> None then False
       else if x = Pawn \<and> hasUnpromotedPawnOnFile (board s) (turn s) c then False
       else if x = Pawn \<and> ((turn s = B \<and> r = 0) \<or> (turn s = W \<and> r = 8)) then False
       else if x = Lance \<and> ((turn s = B \<and> r = 0) \<or> (turn s = W \<and> r = 8)) then False
       else if x = Knight \<and> ((turn s = B \<and> r \<le> 1) \<or> (turn s = W \<and> r \<ge> 7)) then False
       else True)"

definition genDrops :: "position \<Rightarrow> move list" where
  "genDrops s =
    concat (map (\<lambda>x. let count = hcount (hands s (turn s)) x in
                     if count = 0 then []
                     else map (DropMove x) (filter (dropAllowed s x) allSquares)) TYPES)"

definition genAllPseudo :: "position \<Rightarrow> move list" where
  "genAllPseudo s =
    concat (map (\<lambda>(r, c). case cellAt (board s) r c of
                            None \<Rightarrow> []
                          | Some pc \<Rightarrow> if p pc = turn s then genPseudoMoves (board s) r c else [])
              allSquares)
    @ genDrops s"

text \<open>
  The loop of \<^verbatim>\<open>legalMoves\<close> over the pseudo-moves; an exception of \<^verbatim>\<open>makeMove\<close>
  leaves the loop and the function.
\<close>

fun legalFilter :: "position \<Rightarrow> move list \<Rightarrow> error + move list" where
  "legalFilter s [] = Inr []"
| "legalFilter s (m # ms) =
    (case makeMove s m of
       Inl e \<Rightarrow> Inl e
     | Inr ns \<Rightarrow>
         (case legalFilter s ms of
            Inl e \<Rightarrow> Inl e
          | Inr rest \<Rightarrow> Inr (if \<not> isCheck (board ns) (enemy (turn ns)) then m # rest else rest)))"

definition legalMoves :: "position \<Rightarrow> error + move list" where
  "legalMoves s = legalFilter s (genAllPseudo s)"

definition initialState :: position where
  "initialState = \<lparr>board = startPosition, hands = (\<lambda>pl. Map.empty), turn = B\<rparr>"

section \<open>Predicates used by the properties\<close>

text \<open>The fields \<^verbatim>\<open>drop\<close> and \<^verbatim>\<open>promote\<close> of a move object; a drop has no \<^verbatim>\<open>promote\<close>.\<close>

fun isDrop :: "move \<Rightarrow> bool" where
  "isDrop (BoardMove src dest promote) = False"
| "isDrop (DropMove x dest) = True"

fun promoteOf :: "move \<Rightarrow> bool" where
  "promoteOf (BoardMove src dest promote) = promote"
| "promoteOf (DropMove x dest) = False"

text \<open>A board as \<^verbatim>\<open>startPosition\<close> builds it: nine rows of nine cells.\<close>

definition wf_board :: "board \<Rightarrow> bool" where
  "wf_board b = (length b = BOARD_SIZE \<and> list_all (\<lambda>row. length row = BOARD_SIZE) b)"

text \<open>Example positions, Sente to move.\<close>

definition emptyBoard :: board where
  "emptyBoard = replicate 9 (replicate 9 None)"

definition exBoard :: board where
  "exBoard =
    (let e = replicate 9 None in
     [e[0 := Some \<lparr>t = King, p = W, pr = False\<rparr>, 4 := Some \<lparr>t = Gold, p = W, pr = False\<rparr>],
      e[4 := Some \<lparr>t = Pawn, p = B, pr = False\<rparr>],
      e[3 := Some \<lparr>t = Pawn, p = B, pr = True\<rparr>, 7 := Some \<lparr>t = Gold, p = B, pr = False\<rparr>],
      e[1 := Some \<lparr>t = Knight, p = B, pr = False\<rparr>, 5 := Some \<lparr>t = Pawn, p = W, pr = False\<rparr>],
      e, e, e, e,
      e[4 := Some \<lparr>t = King, p = B, pr = False\<rparr>]])"

definition exPosition :: position where
  "exPosition =
    \<lparr>board = exBoard, hands = (\<lambda>pl. if pl = B then [Pawn \<mapsto> 1] else Map.empty), turn = B\<rparr>"

text \<open>The Sente gold on (7,4) shields its king on (8,4) from the Gote rook on (0,4).\<close>

definition pinBoard :: board where
  "pinBoard =
    (let e = replicate 9 None in
     [e[0 := Some \<lparr>t = King, p = W, pr = False\<rparr>, 4 := Some \<lparr>t = Rook, p = W, pr = False\<rparr>],
      e, e, e, e, e, e,
      e[4 := Some \<lparr>t = Gold, p = B, pr = False\<rparr>],
      e[4 := Some \<lparr>t = King, p = B, pr = False\<rparr>]])"

definition pinPosition :: position where
  "pinPosition = \<lparr>board = pinBoard, hands = (\<lambda>pl. Map.empty), turn = B\<rparr>"

text \<open>Every hand count of both sides is at least zero.\<close>

definition handsNonneg :: "position \<Rightarrow> bool" where
  "handsNonneg s = list_all (\<lambda>pl. list_all (\<lambda>x. 0 \<le> hcount (hands s pl) x) TYPES) [B, W]"

text \<open>
  The pieces on the board (the cells that are not \<^verbatim>\<open>null\<close>), the pieces of one hand (the
  counts under all keys of \<^verbatim>\<open>TYPES\<close>, an absent key counting zero), and their total over
  the board and both hands.
\<close>

definition boardCount :: "board \<Rightarrow> int" where
  "boardCount b = sum_list (map (\<lambda>row. int (length (filter (\<lambda>cell. cell \<noteq> None) row))) b)"

definition handTotal :: "hand \<Rightarrow> int" where
  "handTotal h = sum_list (map (hcount h) TYPES)"

definition totalPieces :: "position \<Rightarrow> int" where
  "totalPieces s = boardCount (board s) + handTotal (hands s B) + handTotal (hands s W)"

text \<open>
  JavaScript numbers are doubles. \<^verbatim>\<open>Number.MAX_SAFE_INTEGER\<close> is \<open>2^53 - 1\<close>: on the
  integers of at most this magnitude the sums \<open>n + 1\<close> and \<open>n - 1\<close> of \<^verbatim>\<open>makeMove\<close> are
  exact, so there the integer arithmetic of the model is the arithmetic of the source.
  Beyond it a double can swallow the \<open>1\<close>.
\<close>

definition MAX_SAFE_INTEGER :: int where
  "MAX_SAFE_INTEGER = 2 ^ 53 - 1"

text \<open>Every hand count of both sides has magnitude at most \<open>k\<close>.\<close>

definition handsWithin :: "int \<Rightarrow> position \<Rightarrow> bool" where
  "handsWithin k s =
    list_all (\<lambda>pl. list_all (\<lambda>x. \<bar>hcount (hands s pl) x\<bar> \<le> k) TYPES) [B, W]"

definition handsSafe :: "position \<Rightarrow> bool" where
  "handsSafe s = handsWithin MAX_SAFE_INTEGER s"

text \<open>
  The invariant of the data model on the promoted flag: a cell that holds a piece with
  \<^verbatim>\<open>pr\<close> true holds a piece of a type in \<^verbatim>\<open>PROMOTABLE\<close>.
\<close>

definition pieceOk :: "piece option \<Rightarrow> bool" where
  "pieceOk cell = (case cell of None \<Rightarrow> True | Some pc \<Rightarrow> pr pc \<longrightarrow> PROMOTABLE (t pc))"

definition promotedOk :: "board \<Rightarrow> bool" where
  "promotedOk b = list_all (list_all pieceOk) b"



text \<open>
  A caller that applies a list of moves one after the other, each of them taken from
  \<^verbatim>\<open>genAllPseudo\<close> of the position it is applied to; \<open>None\<close> when a move is not one of
  them or \<^verbatim>\<open>makeMove\<close> does not return a position.
\<close>

fun playMoves :: "position \<Rightarrow> move list \<Rightarrow> position option" where
  "playMoves s [] = Some s"
| "playMoves s (m # ms) =
    (if m \<in> set (genAllPseudo s)
     then case makeMove s m of Inl e \<Rightarrow> None | Inr ns \<Rightarrow> playMoves ns ms
     else None)"

section \<open>The same step over an explicit store\<close>

text \<open>
  \<^verbatim>\<open>makeMove\<close> works on a copy: \<^verbatim>\<open>const ns = deepClone(state)\<close>, then it assigns to
  \<^verbatim>\<open>board[r][c]\<close>, to \<^verbatim>\<open>hands[turn][t]\<close> and to \<^verbatim>\<open>ns.turn\<close>. To say what happens to
  the argument, the objects are placed in a store: a list of objects, an address being an
  index, and a new object being appended. The objects are the position object (references
  to its board and its hands, and the turn), the board array (references to its rows), a
  row array, the hands object (references to the hand of each side) and a hand object.
  No statement of the engine assigns to a field of a piece object (the three assignments
  above are the only assignments to fields or elements), so a piece is held by value in
  its row.
\<close>

type_synonym addr = nat

datatype jsobj =
    OState addr addr side
  | OBoard "addr list"
  | ORow "piece option list"
  | OHands addr addr
  | OHand hand

type_synonym store = "jsobj list"

text \<open>The object at an address, if the address is allocated.\<close>

definition objAt :: "store \<Rightarrow> addr \<Rightarrow> jsobj option" where
  "objAt h a = (if a < length h then Some (h ! a) else None)"

text \<open>
  What \<^verbatim>\<open>JSON.stringify\<close> reads from the address of a position object: the position as a
  value. \<open>None\<close> when the address does not hold a position of this data model.
\<close>

fun readRows :: "store \<Rightarrow> addr list \<Rightarrow> board option" where
  "readRows h [] = Some []"
| "readRows h (a # as) =
    (case objAt h a of
       Some (ORow cells) \<Rightarrow> map_option (\<lambda>rest. cells # rest) (readRows h as)
     | _ \<Rightarrow> None)"

definition readHand :: "store \<Rightarrow> addr \<Rightarrow> hand option" where
  "readHand h a = (case objAt h a of Some (OHand hm) \<Rightarrow> Some hm | _ \<Rightarrow> None)"

definition readState :: "store \<Rightarrow> addr \<Rightarrow> position option" where
  "readState h a =
    (case objAt h a of
       Some (OState bref href tn) \<Rightarrow>
         (case objAt h bref of
            Some (OBoard rows) \<Rightarrow>
              (case readRows h rows of
                 Some b \<Rightarrow>
                   (case objAt h href of
                      Some (OHands hb hw) \<Rightarrow>
                        (case readHand h hb of
                           Some mb \<Rightarrow>
                             (case readHand h hw of
                                Some mw \<Rightarrow>
                                  Some \<lparr>board = b, hands = (\<lambda>pl. if pl = B then mb else mw),
                                        turn = tn\<rparr>
                              | None \<Rightarrow> None)
                         | None \<Rightarrow> None)
                    | _ \<Rightarrow> None)
               | None \<Rightarrow> None)
          | _ \<Rightarrow> None)
     | _ \<Rightarrow> None)"

text \<open>
  What \<^verbatim>\<open>JSON.parse\<close> builds from that value: a new object for every array and every
  object of the text, here the rows, the board, the two hands, the hands object and the
  position object, appended to the store in this order; \<open>n\<close> is the first free address.
\<close>

definition freshObjects :: "nat \<Rightarrow> position \<Rightarrow> jsobj list" where
  "freshObjects n s =
    (let k = length (board s)
     in map ORow (board s) @
          [OBoard [n..<n + k], OHand (hands s B), OHand (hands s W),
           OHands (n + k + 1) (n + k + 2), OState (n + k) (n + k + 3) (turn s)])"

definition buildState :: "store \<Rightarrow> position \<Rightarrow> addr \<times> store" where
  "buildState h s = (length h + length (board s) + 4, h @ freshObjects (length h) s)"

text \<open>\<^verbatim>\<open>deepClone(o) = JSON.parse(JSON.stringify(o))\<close>.\<close>

definition deepClone :: "store \<Rightarrow> addr \<Rightarrow> (addr \<times> store) option" where
  "deepClone h a = map_option (buildState h) (readState h a)"

text \<open>A store that holds the initial position and nothing else; its address is 13.\<close>

definition exStore :: store where
  "exStore = snd (buildState [] initialState)"

text \<open>Sequencing of steps that may fail.\<close>

definition bindE :: "error + 'a \<Rightarrow> ('a \<Rightarrow> error + 'b) \<Rightarrow> error + 'b" where
  "bindE x f = (case x of Inl e \<Rightarrow> Inl e | Inr v \<Rightarrow> f v)"

text \<open>
  \<^verbatim>\<open>board[r][c]\<close> read, \<^verbatim>\<open>board[r][c] = v\<close> and \<^verbatim>\<open>hand[x] = (hand[x]||0) + d\<close> in the
  store, \<open>rows\<close> being the references the board array holds.
\<close>

definition readCellS :: "store \<Rightarrow> addr list \<Rightarrow> nat \<Rightarrow> nat \<Rightarrow> error + piece option" where
  "readCellS h rows r c =
    (if r \<ge> length rows then Inl TypeError
     else case objAt h (rows ! r) of
            Some (ORow cells) \<Rightarrow> Inr (if c < length cells then cells ! c else None)
          | _ \<Rightarrow> Inl NotAPosition)"

definition writeCellS :: "store \<Rightarrow> addr list \<Rightarrow> nat \<Rightarrow> nat \<Rightarrow> piece option \<Rightarrow> error + store" where
  "writeCellS h rows r c v =
    (if r \<ge> length rows then Inl TypeError
     else case objAt h (rows ! r) of
            Some (ORow cells) \<Rightarrow> Inr (h[rows ! r := ORow (rowSet cells c v)])
          | _ \<Rightarrow> Inl NotAPosition)"

definition addHandS :: "store \<Rightarrow> addr \<Rightarrow> ptype \<Rightarrow> int \<Rightarrow> error + store" where
  "addHandS h a x d =
    (case objAt h a of
       Some (OHand hm) \<Rightarrow> Inr (h[a := OHand (hm(x \<mapsto> hcount hm x + d))])
     | _ \<Rightarrow> Inl NotAPosition)"

text \<open>
  \<^verbatim>\<open>makeMove\<close> statement by statement: the clone, the destructuring
  \<^verbatim>\<open>const {board, hands, turn} = ns\<close>, the branch on \<^verbatim>\<open>move.drop\<close>, the assignments in the
  order of the source, and \<^verbatim>\<open>ns.turn = enemy(turn)\<close>. It returns the address of \<open>ns\<close>
  and the store after the call.
\<close>

definition makeMoveS :: "store \<Rightarrow> addr \<Rightarrow> move \<Rightarrow> error + addr \<times> store" where
  "makeMoveS h a m =
    (case deepClone h a of
       None \<Rightarrow> Inl NotAPosition
     | Some (ns, h1) \<Rightarrow>
        (case objAt h1 ns of
           Some (OState bref href tn) \<Rightarrow>
            (case (objAt h1 bref, objAt h1 href) of
               (Some (OBoard rows), Some (OHands hb hw)) \<Rightarrow>
                 (let mine = (if tn = B then hb else hw) in
                  case m of
                    DropMove x (r, c) \<Rightarrow>
                      bindE (writeCellS h1 rows r c (Some \<lparr>t = x, p = tn, pr = False\<rparr>)) (\<lambda>h2.
                      bindE (addHandS h2 mine x (- 1)) (\<lambda>h3.
                      Inr (ns, h3[ns := OState bref href (enemy tn)])))
                  | BoardMove (fr, fc) (tr, tc) promote \<Rightarrow>
                      bindE (readCellS h1 rows fr fc) (\<lambda>piece.
                      bindE (readCellS h1 rows tr tc) (\<lambda>captured.
                      case piece of
                        None \<Rightarrow> Inl NotAPiece
                      | Some pc \<Rightarrow>
                          bindE (case captured of
                                   None \<Rightarrow> Inr h1
                                 | Some cp \<Rightarrow> addHandS h1 mine (t (demote cp)) 1) (\<lambda>h2.
                          bindE (writeCellS h2 rows tr tc
                                   (Some (if promote then promotePiece pc else pc))) (\<lambda>h3.
                          bindE (writeCellS h3 rows fr fc None) (\<lambda>h4.
                          Inr (ns, h4[ns := OState bref href (enemy tn)])))))))
             | _ \<Rightarrow> Inl NotAPosition)
         | _ \<Rightarrow> Inl NotAPosition))"

section \<open>Check detection with the reads that can throw\<close>

text \<open>
  \<^verbatim>\<open>board[r][c]\<close> throws a TypeError when \<^verbatim>\<open>board[r]\<close> is \<^verbatim>\<open>undefined\<close>, that is when the
  board has no row \<open>r\<close>. The functions of this section are \<^verbatim>\<open>findKing\<close>,
  \<^verbatim>\<open>genPseudoMoves\<close>, \<^verbatim>\<open>attacksSquare\<close> and \<^verbatim>\<open>isCheck\<close> once more, with every such read in
  the order of the source and the exception as a result; the loops stop at the first
  exception or at the first \<^verbatim>\<open>return\<close>, whichever the source reaches first. On a board of at
  least nine rows no read throws and they agree with the functions above.
\<close>

definition cellE :: "board \<Rightarrow> nat \<Rightarrow> nat \<Rightarrow> error + piece option" where
  "cellE b r c = (if r \<ge> length b then Inl TypeError else Inr (cellAt b r c))"

definition tryPushE :: "board \<Rightarrow> piece \<Rightarrow> int \<Rightarrow> int \<Rightarrow> error + (nat \<times> nat) list \<times> bool" where
  "tryPushE b pc rr cc =
    (if \<not> inBounds rr cc then Inr ([], False)
     else case cellE b (nat rr) (nat cc) of
            Inl e \<Rightarrow> Inl e
          | Inr None \<Rightarrow> Inr ([(nat rr, nat cc)], True)
          | Inr (Some target) \<Rightarrow>
              Inr (if p target \<noteq> p pc then [(nat rr, nat cc)] else [], False))"

function slideE :: "board \<Rightarrow> piece \<Rightarrow> int \<Rightarrow> int \<Rightarrow> int \<Rightarrow> int \<Rightarrow> error + (nat \<times> nat) list" where
  "slideE b pc dr dc rr cc =
    (case tryPushE b pc rr cc of
       Inl e \<Rightarrow> Inl e
     | Inr (ms, go) \<Rightarrow>
         if go \<and> (dr \<noteq> 0 \<or> dc \<noteq> 0)
         then (case slideE b pc dr dc (rr + dr) (cc + dc) of
                 Inl e \<Rightarrow> Inl e
               | Inr rest \<Rightarrow> Inr (ms @ rest))
         else Inr ms)"
  by pat_completeness auto
termination
  apply (relation "measure (\<lambda>(b, pc, dr, dc, rr, cc).
         if dr > 0 then nat (9 - rr) else if dr < 0 then nat (rr + 1)
         else if dc > 0 then nat (9 - cc) else nat (cc + 1))")
   apply simp
  apply (auto simp: tryPushE_def inBounds_def BOARD_SIZE_def split: if_splits option.splits sum.splits)
  done

declare slideE.simps [simp del]

definition extraStepE :: "board \<Rightarrow> piece \<Rightarrow> nat \<Rightarrow> nat \<Rightarrow> int \<times> int \<Rightarrow> error + (nat \<times> nat) list" where
  "extraStepE b pc r c d =
    (case d of (dr, dc) \<Rightarrow>
       let rr = int r + dr; cc = int c + dc in
       if inBounds rr cc
       then (case cellE b (nat rr) (nat cc) of
               Inl e \<Rightarrow> Inl e
             | Inr cell \<Rightarrow>
                 Inr (if (case cell of None \<Rightarrow> True | Some x \<Rightarrow> p x \<noteq> p pc)
                      then [(nat rr, nat cc)] else []))
       else Inr [])"

text \<open>A loop that appends what each step pushes, and a loop that returns at the first hit.\<close>

fun collectE :: "('a \<Rightarrow> error + 'b list) \<Rightarrow> 'a list \<Rightarrow> error + 'b list" where
  "collectE f [] = Inr []"
| "collectE f (x # xs) =
    (case f x of
       Inl e \<Rightarrow> Inl e
     | Inr ys \<Rightarrow> (case collectE f xs of Inl e \<Rightarrow> Inl e | Inr zs \<Rightarrow> Inr (ys @ zs)))"

definition rawTargetsE :: "board \<Rightarrow> piece \<Rightarrow> nat \<Rightarrow> nat \<Rightarrow> error + (nat \<times> nat) list" where
  "rawTargetsE b pc r c =
    (let baseDirs = map (rotateFor (p pc)) (dirsFor pc);
         sliding = isSlider pc
     in case collectE (\<lambda>(dr, dc).
                  if sliding then slideE b pc dr dc (int r + dr) (int c + dc)
                  else map_sum id fst (tryPushE b pc (int r + dr) (int c + dc))) baseDirs of
          Inl e \<Rightarrow> Inl e
        | Inr xs \<Rightarrow>
           (case (if pr pc \<and> t pc = Rook
                  then collectE (\<lambda>v. extraStepE b pc r c (rotateFor (p pc) v))
                         [(-1,-1),(-1,1),(1,-1),(1,1)]
                  else Inr []) of
              Inl e \<Rightarrow> Inl e
            | Inr ys \<Rightarrow>
               (case (if pr pc \<and> t pc = Bishop
                      then collectE (\<lambda>v. extraStepE b pc r c (rotateFor (p pc) v))
                             [(-1,0),(1,0),(0,-1),(0,1)]
                      else Inr []) of
                  Inl e \<Rightarrow> Inl e
                | Inr zs \<Rightarrow> Inr (xs @ ys @ zs))))"

definition genPseudoMovesE :: "board \<Rightarrow> nat \<Rightarrow> nat \<Rightarrow> error + move list" where
  "genPseudoMovesE b r c =
    (case cellE b r c of
       Inl e \<Rightarrow> Inl e
     | Inr None \<Rightarrow> Inr []
     | Inr (Some pc) \<Rightarrow>
         (case rawTargetsE b pc r c of
            Inl e \<Rightarrow> Inl e
          | Inr ts \<Rightarrow> Inr (concat (map (promoChoices pc r c) ts))))"

fun findE :: "('a \<Rightarrow> error + bool) \<Rightarrow> 'a list \<Rightarrow> error + 'a option" where
  "findE f [] = Inr None"
| "findE f (x # xs) =
    (case f x of
       Inl e \<Rightarrow> Inl e
     | Inr hit \<Rightarrow> if hit then Inr (Some x) else findE f xs)"

definition findKingE :: "board \<Rightarrow> side \<Rightarrow> error + (nat \<times> nat) option" where
  "findKingE b player =
    findE (\<lambda>(r, c). case cellE b r c of
                      Inl e \<Rightarrow> Inl e
                    | Inr None \<Rightarrow> Inr False
                    | Inr (Some pc) \<Rightarrow> Inr (p pc = player \<and> t pc = King)) allSquares"

definition attacksSquareE :: "board \<Rightarrow> side \<Rightarrow> nat \<Rightarrow> nat \<Rightarrow> error + bool" where
  "attacksSquareE b attacker tr tc =
    map_sum id (\<lambda>hit. hit \<noteq> None)
      (findE (\<lambda>(r, c). case cellE b r c of
                         Inl e \<Rightarrow> Inl e
                       | Inr None \<Rightarrow> Inr False
                       | Inr (Some pc) \<Rightarrow>
                           if p pc = attacker
                           then (case genPseudoMovesE b r c of
                                   Inl e \<Rightarrow> Inl e
                                 | Inr ms \<Rightarrow>
                                     Inr (list_ex (\<lambda>m. fst (moveTo m) = tr \<and> snd (moveTo m) = tc) ms))
                           else Inr False) allSquares)"

definition isCheckE :: "board \<Rightarrow> side \<Rightarrow> error + bool" where
  "isCheckE b player =
    (case findKingE b player of
       Inl e \<Rightarrow> Inl e
     | Inr None \<Rightarrow> Inr False
     | Inr (Some (kr, kc)) \<Rightarrow> attacksSquareE b (enemy player) kr kc)"

section \<open>Basic facts\<close>

lemma enemy_enemy: "enemy (enemy pl) = pl"
  by (cases pl) simp_all

lemma set_allSquares: "set allSquares = {(r, c). r < 9 \<and> c < 9}"
  by (auto simp: allSquares_def BOARD_SIZE_def)

lemma wf_board_cellAt: "wf_board b \<Longrightarrow> r < 9 \<Longrightarrow> c < 9 \<Longrightarrow> cellAt b r c = b ! r ! c"
  by (simp add: wf_board_def cellAt_def BOARD_SIZE_def list_all_length)

lemma wf_startPosition: "wf_board startPosition"
  by (simp add: wf_board_def startPosition_def BOARD_SIZE_def Let_def)

lemma wf_exBoard: "wf_board exBoard"
  by (simp add: wf_board_def exBoard_def BOARD_SIZE_def Let_def)

lemma wf_pinBoard: "wf_board pinBoard"
  by (simp add: wf_board_def pinBoard_def BOARD_SIZE_def Let_def)

lemma set_TYPES: "set TYPES = UNIV"
proof -
  have "\<And>x. x \<in> set TYPES"
    subgoal for x by (cases x) (simp_all add: TYPES_def)
    done
  then show ?thesis by blast
qed

lemma hcount_upd: "hcount (g(y \<mapsto> n)) x = (if x = y then n else hcount g x)"
  by (simp add: hcount_def)

section \<open>The starting position\<close>

lemma genAllPseudo_initial:
  "genAllPseudo initialState =
    [BoardMove (6, 0) (5, 0) False, BoardMove (6, 1) (5, 1) False,
     BoardMove (6, 2) (5, 2) False, BoardMove (6, 3) (5, 3) False,
     BoardMove (6, 4) (5, 4) False, BoardMove (6, 5) (5, 5) False,
     BoardMove (6, 6) (5, 6) False, BoardMove (6, 7) (5, 7) False,
     BoardMove (6, 8) (5, 8) False, BoardMove (7, 7) (7, 6) False,
     BoardMove (7, 7) (7, 5) False, BoardMove (7, 7) (7, 4) False,
     BoardMove (7, 7) (7, 3) False, BoardMove (7, 7) (7, 2) False,
     BoardMove (7, 7) (7, 8) False, BoardMove (8, 0) (7, 0) False,
     BoardMove (8, 2) (7, 2) False, BoardMove (8, 2) (7, 3) False,
     BoardMove (8, 3) (7, 2) False, BoardMove (8, 3) (7, 3) False,
     BoardMove (8, 3) (7, 4) False, BoardMove (8, 4) (7, 3) False,
     BoardMove (8, 4) (7, 4) False, BoardMove (8, 4) (7, 5) False,
     BoardMove (8, 5) (7, 4) False, BoardMove (8, 5) (7, 5) False,
     BoardMove (8, 5) (7, 6) False, BoardMove (8, 6) (7, 5) False,
     BoardMove (8, 6) (7, 6) False, BoardMove (8, 8) (7, 8) False]"
  by code_simp

lemma legalMoves_initial_all: "legalMoves initialState = Inr (genAllPseudo initialState)"
  by code_simp

text \<open>
  C6. \<^verbatim>\<open>legalMoves\<close> on the initial position (the starting array, empty hands, Sente to
  move) returns normally a list of exactly 30 moves, none of them a drop and none with
  \<^verbatim>\<open>promote\<close> set.
\<close>

theorem legalMoves_initialState:
  "\<exists>ms. legalMoves initialState = Inr ms \<and> length ms = 30 \<and>
        list_all (\<lambda>m. \<not> isDrop m \<and> \<not> promoteOf m) ms"
  unfolding legalMoves_initial_all genAllPseudo_initial by simp

section \<open>Check when the king is absent\<close>

lemma findKing_None_iff:
  "findKing b player = None \<longleftrightarrow>
     \<not> (\<exists>r < 9. \<exists>c < 9. \<exists>pc. cellAt b r c = Some pc \<and> p pc = player \<and> t pc = King)"
  unfolding findKing_def find_None_iff set_allSquares
  by (auto split: option.splits)

lemma cellE_rows: "9 \<le> length b \<Longrightarrow> r < 9 \<Longrightarrow> cellE b r c = Inr (cellAt b r c)"
  by (simp add: cellE_def)

lemma tryPushE_rows: "9 \<le> length b \<Longrightarrow> tryPushE b pc rr cc = Inr (tryPush b pc rr cc)"
  by (auto simp: tryPushE_def tryPush_def cellE_def inBounds_def BOARD_SIZE_def split: option.splits)

lemma slideE_rows: "9 \<le> length b \<Longrightarrow> slideE b pc dr dc rr cc = Inr (slide b pc dr dc rr cc)"
proof (induction b pc dr dc rr cc rule: slide.induct)
  case (1 b pc dr dc rr cc)
  obtain ms go where tp: "tryPush b pc rr cc = (ms, go)" by (cases "tryPush b pc rr cc")
  have s1: "slide b pc dr dc rr cc =
      (if go \<and> (dr \<noteq> 0 \<or> dc \<noteq> 0) then ms @ slide b pc dr dc (rr + dr) (cc + dc) else ms)"
    by (subst slide.simps) (simp add: tp)
  have s2: "slideE b pc dr dc rr cc =
      (if go \<and> (dr \<noteq> 0 \<or> dc \<noteq> 0)
       then (case slideE b pc dr dc (rr + dr) (cc + dc) of
               Inl e \<Rightarrow> Inl e | Inr rest \<Rightarrow> Inr (ms @ rest))
       else Inr ms)"
    by (subst slideE.simps) (simp add: tryPushE_rows[OF "1.prems"] tp)
  show ?case
  proof (cases "go \<and> (dr \<noteq> 0 \<or> dc \<noteq> 0)")
    case True
    from "1.IH"[OF tp[symmetric] True "1.prems"] have
      "slideE b pc dr dc (rr + dr) (cc + dc) = Inr (slide b pc dr dc (rr + dr) (cc + dc))" .
    with True show ?thesis
      unfolding s1 s2 by simp
  next
    case False
    show ?thesis
      unfolding s1 s2 by (simp only: False if_False)
  qed
qed

lemma extraStepE_rows: "9 \<le> length b \<Longrightarrow> extraStepE b pc r c d = Inr (extraStep b pc r c d)"
  by (cases d)
     (auto simp: extraStepE_def extraStep_def Let_def cellE_def inBounds_def BOARD_SIZE_def)

lemma collectE_Inr:
  "(\<And>x. x \<in> set xs \<Longrightarrow> f x = Inr (g x)) \<Longrightarrow> collectE f xs = Inr (concat (map g xs))"
  by (induction xs) simp_all

lemma rawTargetsE_rows:
  assumes "9 \<le> length b"
  shows "rawTargetsE b pc r c = Inr (rawTargets b pc r c)"
proof -
  have a: "collectE (\<lambda>(dr, dc).
                  if isSlider pc then slideE b pc dr dc (int r + dr) (int c + dc)
                  else map_sum id fst (tryPushE b pc (int r + dr) (int c + dc))) ds
           = Inr (concat (map (\<lambda>(dr, dc).
                  if isSlider pc then slide b pc dr dc (int r + dr) (int c + dc)
                  else fst (tryPush b pc (int r + dr) (int c + dc))) ds))" for ds
    by (rule collectE_Inr) (auto simp: slideE_rows[OF assms] tryPushE_rows[OF assms])
  have e: "collectE (\<lambda>v. extraStepE b pc r c (rotateFor (p pc) v)) vs
           = Inr (concat (map (\<lambda>v. extraStep b pc r c (rotateFor (p pc) v)) vs))" for vs
    by (rule collectE_Inr) (simp add: extraStepE_rows[OF assms])
  show ?thesis
    unfolding rawTargetsE_def rawTargets_def Let_def a e by simp
qed

lemma genPseudoMovesE_rows:
  "9 \<le> length b \<Longrightarrow> r < 9 \<Longrightarrow> genPseudoMovesE b r c = Inr (genPseudoMoves b r c)"
  by (simp add: genPseudoMovesE_def genPseudoMoves_def cellE_rows rawTargetsE_rows
        split: option.splits)

lemma findE_Inr:
  "(\<And>x. x \<in> set xs \<Longrightarrow> f x = Inr (g x)) \<Longrightarrow> findE f xs = Inr (find g xs)"
  by (induction xs) simp_all

lemma findKingE_rows:
  assumes "9 \<le> length b"
  shows "findKingE b player = Inr (findKing b player)"
  unfolding findKingE_def findKing_def
  by (rule findE_Inr) (auto simp: set_allSquares cellE_rows[OF assms] split: option.splits)

lemma attacksSquareE_rows:
  assumes "9 \<le> length b"
  shows "attacksSquareE b attacker tr tc = Inr (attacksSquare b attacker tr tc)"
proof -
  let ?g = "\<lambda>(r, c). case cellAt b r c of
                        None \<Rightarrow> False
                      | Some pc \<Rightarrow> p pc = attacker \<and>
                          list_ex (\<lambda>m. fst (moveTo m) = tr \<and> snd (moveTo m) = tc)
                            (genPseudoMoves b r c)"
  have "findE (\<lambda>(r, c). case cellE b r c of
                         Inl e \<Rightarrow> Inl e
                       | Inr None \<Rightarrow> Inr False
                       | Inr (Some pc) \<Rightarrow>
                           if p pc = attacker
                           then (case genPseudoMovesE b r c of
                                   Inl e \<Rightarrow> Inl e
                                 | Inr ms \<Rightarrow>
                                     Inr (list_ex (\<lambda>m. fst (moveTo m) = tr \<and> snd (moveTo m) = tc) ms))
                           else Inr False) allSquares = Inr (find ?g allSquares)"
    by (rule findE_Inr)
       (auto simp: set_allSquares cellE_rows[OF assms] genPseudoMovesE_rows[OF assms]
          split: option.splits)
  moreover have "(find ?g allSquares \<noteq> None) = list_ex ?g allSquares"
    by (auto simp: find_None_iff list_ex_iff)
  ultimately show ?thesis
    by (simp add: attacksSquareE_def attacksSquare_def)
qed

lemma isCheckE_rows:
  "9 \<le> length b \<Longrightarrow> isCheckE b player = Inr (isCheck b player)"
  by (simp add: isCheckE_def isCheck_def findKingE_rows attacksSquareE_rows split: option.splits)

lemma isCheckE_short: "isCheckE [] B = Inl TypeError"
  by code_simp

lemma wf_board_rows: "wf_board b \<Longrightarrow> 9 \<le> length b"
  by (simp add: wf_board_def BOARD_SIZE_def)

lemma wf_emptyBoard: "wf_board emptyBoard"
  by (simp add: wf_board_def emptyBoard_def BOARD_SIZE_def list_all_iff)

text \<open>
  C2, as the source has it. On a nine by nine board no square of which holds a king of
  \<open>player\<close>, \<^verbatim>\<open>isCheck\<close> does not fail: no read of \<^verbatim>\<open>findKing\<close> throws, \<^verbatim>\<open>findKing\<close>
  returns \<^verbatim>\<open>null\<close>, and the guard \<^verbatim>\<open>if(!kpos) return false\<close> makes the result the
  ordinary boolean false.
\<close>

theorem isCheck_king_absent:
  assumes "wf_board b"
    and "\<not> (\<exists>r < 9. \<exists>c < 9. \<exists>pc. cellAt b r c = Some pc \<and> p pc = player \<and> t pc = King)"
  shows "findKingE b player = Inr None \<and> isCheckE b player = Inr False \<and>
         findKing b player = None \<and> isCheck b player = False"
proof -
  from assms(2) have fk: "findKing b player = None"
    by (simp only: findKing_None_iff not_False_eq_True)
  from assms(1) have rows: "9 \<le> length b"
    by (rule wf_board_rows)
  from fk have "isCheck b player = False"
    by (simp add: isCheck_def)
  with fk findKingE_rows[OF rows, of player] isCheckE_rows[OF rows, of player] show ?thesis
    by simp
qed

theorem isCheck_king_absent_witness:
  "wf_board emptyBoard \<and>
   \<not> (\<exists>r < 9. \<exists>c < 9. \<exists>pc. cellAt emptyBoard r c = Some pc \<and> p pc = B \<and> t pc = King)
     \<and> findKingE emptyBoard B = Inr None \<and> isCheckE emptyBoard B = Inr False
     \<and> findKing emptyBoard B = None \<and> isCheck emptyBoard B = False"
proof -
  have h: "\<not> (\<exists>r < 9. \<exists>c < 9. \<exists>pc. cellAt emptyBoard r c = Some pc \<and> p pc = B \<and> t pc = King)"
    by (auto simp: cellAt_def emptyBoard_def)
  show ?thesis using h wf_emptyBoard isCheck_king_absent [OF wf_emptyBoard h] by simp
qed

text \<open>
  C2, as the specification states it, fails: on the empty nine by nine board, which has no
  king of either side, \<^verbatim>\<open>isCheck\<close> returns false for Sente; nothing is raised.
\<close>

theorem isCheck_king_absent_counterexample:
  "findKing emptyBoard B = None \<and> isCheck emptyBoard B = False \<and>
   findKingE emptyBoard B = Inr None \<and> isCheckE emptyBoard B = Inr False"
  by code_simp

section \<open>What the generator produces\<close>

lemma tryPush_sound:
  "dst \<in> set (fst (tryPush b pc rr cc)) \<Longrightarrow>
     fst dst < 9 \<and> snd dst < 9 \<and> (case cellAt b (fst dst) (snd dst) of None \<Rightarrow> True | Some x \<Rightarrow> p x \<noteq> p pc)"
  by (auto simp: tryPush_def inBounds_def BOARD_SIZE_def split: if_splits option.splits)

lemma slide_sound:
  "dst \<in> set (slide b pc dr dc rr cc) \<Longrightarrow>
     fst dst < 9 \<and> snd dst < 9 \<and> (case cellAt b (fst dst) (snd dst) of None \<Rightarrow> True | Some x \<Rightarrow> p x \<noteq> p pc)"
proof (induction b pc dr dc rr cc rule: slide.induct)
  case (1 b pc dr dc rr cc)
  obtain ms go where tp: "tryPush b pc rr cc = (ms, go)" by (cases "tryPush b pc rr cc")
  from "1.prems" tp have "dst \<in> set ms \<or> (go \<and> (dr \<noteq> 0 \<or> dc \<noteq> 0) \<and> dst \<in> set (slide b pc dr dc (rr + dr) (cc + dc)))"
    by (subst (asm) slide.simps) (auto split: if_splits)
  then show ?case
  proof
    assume "dst \<in> set ms"
    with tp have "dst \<in> set (fst (tryPush b pc rr cc))" by simp
    then show ?thesis by (rule tryPush_sound)
  next
    assume a: "go \<and> (dr \<noteq> 0 \<or> dc \<noteq> 0) \<and> dst \<in> set (slide b pc dr dc (rr + dr) (cc + dc))"
    then show ?thesis using "1.IH"[OF tp[symmetric]] by blast
  qed
qed

lemma extraStep_sound:
  "dst \<in> set (extraStep b pc r c d) \<Longrightarrow>
     fst dst < 9 \<and> snd dst < 9 \<and> (case cellAt b (fst dst) (snd dst) of None \<Rightarrow> True | Some x \<Rightarrow> p x \<noteq> p pc)"
  by (auto simp: extraStep_def Let_def inBounds_def BOARD_SIZE_def split: if_splits option.splits prod.splits)

lemma rawTargets_sound:
  "dst \<in> set (rawTargets b pc r c) \<Longrightarrow>
     fst dst < 9 \<and> snd dst < 9 \<and> (case cellAt b (fst dst) (snd dst) of None \<Rightarrow> True | Some x \<Rightarrow> p x \<noteq> p pc)"
  unfolding rawTargets_def Let_def
  by (auto dest: slide_sound tryPush_sound extraStep_sound split: if_splits prod.splits)

lemma promoChoices_mem:
  "m \<in> set (promoChoices pc r c dst) \<Longrightarrow>
     \<exists>pro. m = BoardMove (r, c) dst pro \<and>
           (PROMOTABLE (t pc) \<and> mustPromote pc (fst dst) \<longrightarrow> pro) \<and>
           (\<not> PROMOTABLE (t pc) \<longrightarrow> \<not> pro)"
  by (cases dst) (auto simp: promoChoices_def Let_def split: if_splits)

lemma genPseudoMoves_mem:
  "m \<in> set (genPseudoMoves b r c) \<Longrightarrow>
     \<exists>pc dst. cellAt b r c = Some pc \<and> dst \<in> set (rawTargets b pc r c) \<and>
              m \<in> set (promoChoices pc r c dst)"
  by (cases "cellAt b r c") (auto simp: genPseudoMoves_def)

lemma genDrops_mem:
  "m \<in> set (genDrops s) \<longleftrightarrow>
     (\<exists>x r c. m = DropMove x (r, c) \<and> hcount (hands s (turn s)) x \<noteq> 0 \<and> r < 9 \<and> c < 9 \<and>
              dropAllowed s x (r, c))"
proof -
  have all: "\<And>x. x \<in> set TYPES"
    subgoal for x by (cases x) (simp_all add: TYPES_def)
    done
  show ?thesis
    unfolding genDrops_def Let_def
    by (auto simp: all set_allSquares split: if_splits)
qed

lemma genAllPseudo_mem:
  "m \<in> set (genAllPseudo s) \<longleftrightarrow>
     (\<exists>r c pc. r < 9 \<and> c < 9 \<and> cellAt (board s) r c = Some pc \<and> p pc = turn s \<and>
               m \<in> set (genPseudoMoves (board s) r c))
     \<or> m \<in> set (genDrops s)"
proof -
  have sq: "\<And>r c. set (case cellAt (board s) r c of None \<Rightarrow> []
                   | Some pc \<Rightarrow> if p pc = turn s then genPseudoMoves (board s) r c else [])
        = {m. \<exists>pc. cellAt (board s) r c = Some pc \<and> p pc = turn s \<and>
                 m \<in> set (genPseudoMoves (board s) r c)}"
    subgoal for r c by (cases "cellAt (board s) r c") auto
    done
  show ?thesis
    unfolding genAllPseudo_def by (auto simp: set_allSquares sq) metis+
qed

text \<open>
  A board move of the generator: its source holds a piece of the mover, its target is
  inside the grid and is empty or held by the other side.
\<close>

lemma pseudo_BoardMove:
  assumes "BoardMove src dst pro \<in> set (genAllPseudo s)"
  shows "\<exists>pc. fst src < 9 \<and> snd src < 9 \<and> cellAt (board s) (fst src) (snd src) = Some pc \<and> p pc = turn s \<and>
              fst dst < 9 \<and> snd dst < 9 \<and>
              (case cellAt (board s) (fst dst) (snd dst) of None \<Rightarrow> True | Some x \<Rightarrow> p x \<noteq> turn s) \<and>
              (PROMOTABLE (t pc) \<and> mustPromote pc (fst dst) \<longrightarrow> pro) \<and>
              (\<not> PROMOTABLE (t pc) \<longrightarrow> \<not> pro)"
proof -
  from assms obtain r c pc where rc: "r < 9" "c < 9" "cellAt (board s) r c = Some pc" "p pc = turn s"
      and m: "BoardMove src dst pro \<in> set (genPseudoMoves (board s) r c)"
    by (auto simp: genAllPseudo_mem genDrops_mem)
  from genPseudoMoves_mem[OF m] rc obtain d where d: "d \<in> set (rawTargets (board s) pc r c)"
     and pm: "BoardMove src dst pro \<in> set (promoChoices pc r c d)"
    by auto
  from promoChoices_mem[OF pm] have e: "src = (r, c)" "dst = d"
    and pr1: "PROMOTABLE (t pc) \<and> mustPromote pc (fst d) \<longrightarrow> pro" and pr2: "\<not> PROMOTABLE (t pc) \<longrightarrow> \<not> pro"
    by auto
  from rawTargets_sound[OF d] rc e pr1 pr2 show ?thesis by (auto split: option.splits)
qed

lemma pseudo_DropMove:
  assumes "DropMove x dst \<in> set (genAllPseudo s)"
  shows "hcount (hands s (turn s)) x \<noteq> 0 \<and> fst dst < 9 \<and> snd dst < 9 \<and> dropAllowed s x dst"
proof -
  from assms have "DropMove x dst \<in> set (genDrops s)"
    by (auto simp: genAllPseudo_mem dest!: genPseudoMoves_mem promoChoices_mem)
  then show ?thesis by (auto simp: genDrops_mem)
qed

lemma makeMove_pseudo:
  assumes "wf_board (board s)" and "m \<in> set (genAllPseudo s)"
  shows "\<exists>ns. makeMove s m = Inr ns \<and> turn ns = enemy (turn s)"
proof (cases m)
  case (BoardMove src dst pro)
  with pseudo_BoardMove[of src dst pro s] assms obtain pc where
    "fst src < 9" "cellAt (board s) (fst src) (snd src) = Some pc" "fst dst < 9"
    by auto
  with assms(1) BoardMove show ?thesis
    by (cases src; cases dst) (auto simp: makeMove_def wf_board_def BOARD_SIZE_def Let_def)
next
  case (DropMove x dst)
  with pseudo_DropMove[of x dst s] assms have "fst dst < 9" by auto
  with assms(1) DropMove show ?thesis
    by (cases dst) (auto simp: makeMove_def wf_board_def BOARD_SIZE_def)
qed

lemma legalFilter_set:
  "legalFilter s ms = Inr out \<Longrightarrow>
     out = filter (\<lambda>m. case makeMove s m of Inl e \<Rightarrow> False
                       | Inr ns \<Rightarrow> \<not> isCheck (board ns) (enemy (turn ns))) ms"
  by (induction ms arbitrary: out) (auto split: sum.splits if_splits)

lemma legalFilter_total:
  "(\<And>m. m \<in> set ms \<Longrightarrow> \<exists>ns. makeMove s m = Inr ns) \<Longrightarrow> \<exists>out. legalFilter s ms = Inr out"
proof (induction ms)
  case Nil
  show ?case by simp
next
  case (Cons a ms)
  from Cons.prems[of a] obtain ns where "makeMove s a = Inr ns" by auto
  moreover from Cons obtain out where "legalFilter s ms = Inr out" by auto
  ultimately show ?case by simp
qed

section \<open>The legality filter\<close>

text \<open>
  C1. On a nine by nine board \<^verbatim>\<open>legalMoves\<close> returns normally; its result is the list of
  pseudo-moves filtered by "after \<^verbatim>\<open>makeMove\<close>, \<^verbatim>\<open>isCheck\<close> of the new board for the side
  that moved is false", so every move it contains leads to a board on which the mover's
  own king is not attacked, and every pseudo-move it leaves out leads to one on which
  it is.
\<close>

theorem legalMoves_no_self_check:
  assumes "wf_board (board s)"
  shows "\<exists>ms. legalMoves s = Inr ms \<and>
           ms = filter (\<lambda>m. case makeMove s m of Inl e \<Rightarrow> False
                            | Inr ns \<Rightarrow> \<not> isCheck (board ns) (turn s)) (genAllPseudo s) \<and>
           (\<forall>m \<in> set ms. \<exists>ns. makeMove s m = Inr ns \<and> isCheck (board ns) (turn s) = False)"
proof -
  have tot: "\<And>m. m \<in> set (genAllPseudo s) \<Longrightarrow> \<exists>ns. makeMove s m = Inr ns"
    using makeMove_pseudo[OF assms] by blast
  from legalFilter_total[of "genAllPseudo s" s, OF tot] obtain ms where ms: "legalMoves s = Inr ms"
    by (auto simp: legalMoves_def)
  then have f: "ms = filter (\<lambda>m. case makeMove s m of Inl e \<Rightarrow> False
                       | Inr ns \<Rightarrow> \<not> isCheck (board ns) (enemy (turn ns))) (genAllPseudo s)"
    by (simp add: legalMoves_def legalFilter_set)
  have eq: "filter (\<lambda>m. case makeMove s m of Inl e \<Rightarrow> False
                       | Inr ns \<Rightarrow> \<not> isCheck (board ns) (enemy (turn ns))) (genAllPseudo s)
          = filter (\<lambda>m. case makeMove s m of Inl e \<Rightarrow> False
                            | Inr ns \<Rightarrow> \<not> isCheck (board ns) (turn s)) (genAllPseudo s)"
  proof (rule filter_cong[OF refl])
    fix m assume "m \<in> set (genAllPseudo s)"
    from makeMove_pseudo[OF assms this] show
      "(case makeMove s m of Inl e \<Rightarrow> False | Inr ns \<Rightarrow> \<not> isCheck (board ns) (enemy (turn ns)))
       = (case makeMove s m of Inl e \<Rightarrow> False | Inr ns \<Rightarrow> \<not> isCheck (board ns) (turn s))"
      by (auto simp: enemy_enemy)
  qed
  from f eq have f': "ms = filter (\<lambda>m. case makeMove s m of Inl e \<Rightarrow> False
                            | Inr ns \<Rightarrow> \<not> isCheck (board ns) (turn s)) (genAllPseudo s)" by simp
  have "\<forall>m \<in> set ms. \<exists>ns. makeMove s m = Inr ns \<and> isCheck (board ns) (turn s) = False"
    by (subst f') (auto split: sum.splits)
  with ms f' show ?thesis by blast
qed

lemma legalMoves_pinPosition:
  "legalMoves pinPosition =
     Inr [BoardMove (7, 4) (6, 4) False, BoardMove (8, 4) (7, 3) False,
          BoardMove (8, 4) (7, 5) False, BoardMove (8, 4) (8, 3) False,
          BoardMove (8, 4) (8, 5) False]"
  by code_simp

theorem legalMoves_no_self_check_witness:
  "wf_board (board pinPosition) \<and>
   (\<exists>ms. legalMoves pinPosition = Inr ms \<and> BoardMove (8, 4) (8, 3) False \<in> set ms \<and>
      (\<exists>ns. makeMove pinPosition (BoardMove (8, 4) (8, 3) False) = Inr ns \<and>
            isCheck (board ns) (turn pinPosition) = False))"
proof -
  have w: "wf_board (board pinPosition)"
    by (simp add: pinPosition_def wf_pinBoard)
  from legalMoves_no_self_check [OF w] obtain ms where
    ms: "legalMoves pinPosition = Inr ms" and
    safe: "\<forall>m \<in> set ms. \<exists>ns. makeMove pinPosition m = Inr ns \<and>
             isCheck (board ns) (turn pinPosition) = False"
    by blast
  from ms have mem: "BoardMove (8, 4) (8, 3) False \<in> set ms"
    by (auto simp: legalMoves_pinPosition)
  with safe w ms show ?thesis by blast
qed

section \<open>Drops and the nifu rule\<close>

lemma hasUnpromotedPawnOnFile_iff:
  "hasUnpromotedPawnOnFile b player file \<longleftrightarrow>
     (\<exists>r < 9. \<exists>pc. cellAt b r file = Some pc \<and> p pc = player \<and> t pc = Pawn \<and> \<not> pr pc)"
  unfolding hasUnpromotedPawnOnFile_def list_ex_iff
  by (auto simp: BOARD_SIZE_def split: option.splits)

lemma legalMoves_subset:
  "legalMoves s = Inr ms \<Longrightarrow> set ms \<subseteq> set (genAllPseudo s)"
  by (auto simp: legalMoves_def dest!: legalFilter_set)

lemma genAllPseudo_DropMove_iff:
  "DropMove x (r, c) \<in> set (genAllPseudo s) \<longleftrightarrow>
     hcount (hands s (turn s)) x \<noteq> 0 \<and> r < 9 \<and> c < 9 \<and> dropAllowed s x (r, c)"
proof
  assume "DropMove x (r, c) \<in> set (genAllPseudo s)"
  from pseudo_DropMove[OF this] show "hcount (hands s (turn s)) x \<noteq> 0 \<and> r < 9 \<and> c < 9 \<and> dropAllowed s x (r, c)"
    by simp
next
  assume "hcount (hands s (turn s)) x \<noteq> 0 \<and> r < 9 \<and> c < 9 \<and> dropAllowed s x (r, c)"
  then have "DropMove x (r, c) \<in> set (genDrops s)"
    by (auto simp: genDrops_mem)
  then show "DropMove x (r, c) \<in> set (genAllPseudo s)"
    by (simp add: genAllPseudo_mem)
qed

text \<open>
  C5. A pawn drop that \<^verbatim>\<open>legalMoves\<close> returns never lands on a file that holds an
  unpromoted pawn of the side to move. The restriction looks at nothing else on the file:
  a pawn drop is generated exactly when the hand count is non-zero, the square is inside
  the grid and empty, no square of the file holds the piece "pawn, own, unpromoted" (so
  promoted pawns and pawns of the other side do not count), and the row is not the
  mover's last rank.
\<close>

theorem nifu:
  "(legalMoves s = Inr ms \<and> DropMove Pawn (r, c) \<in> set ms \<and> r' < 9 \<longrightarrow>
      cellAt (board s) r' c \<noteq> Some \<lparr>t = Pawn, p = turn s, pr = False\<rparr>)
   \<and> (DropMove Pawn (r, c) \<in> set (genAllPseudo s) \<longleftrightarrow>
        hcount (hands s (turn s)) Pawn \<noteq> 0 \<and> r < 9 \<and> c < 9 \<and> cellAt (board s) r c = None \<and>
        \<not> (\<exists>r' < 9. cellAt (board s) r' c = Some \<lparr>t = Pawn, p = turn s, pr = False\<rparr>) \<and>
        \<not> ((turn s = B \<and> r = 0) \<or> (turn s = W \<and> r = 8)))"
proof -
  have ex: "hasUnpromotedPawnOnFile (board s) (turn s) c \<longleftrightarrow>
        (\<exists>r' < 9. cellAt (board s) r' c = Some \<lparr>t = Pawn, p = turn s, pr = False\<rparr>)"
    unfolding hasUnpromotedPawnOnFile_iff
  proof (intro iffI; elim exE conjE)
    fix r' pc assume "r' < 9" "cellAt (board s) r' c = Some pc" "p pc = turn s" "t pc = Pawn" "\<not> pr pc"
    moreover from this have "pc = \<lparr>t = Pawn, p = turn s, pr = False\<rparr>" by simp
    ultimately show "\<exists>r' < 9. cellAt (board s) r' c = Some \<lparr>t = Pawn, p = turn s, pr = False\<rparr>" by blast
  next
    fix r' assume "r' < 9" "cellAt (board s) r' c = Some \<lparr>t = Pawn, p = turn s, pr = False\<rparr>"
    then show "\<exists>r'<9. \<exists>pc. cellAt (board s) r' c = Some pc \<and> p pc = turn s \<and> t pc = Pawn \<and> \<not> pr pc"
      by force
  qed
  have two: "DropMove Pawn (r, c) \<in> set (genAllPseudo s) \<longleftrightarrow>
        hcount (hands s (turn s)) Pawn \<noteq> 0 \<and> r < 9 \<and> c < 9 \<and> cellAt (board s) r c = None \<and>
        \<not> (\<exists>r' < 9. cellAt (board s) r' c = Some \<lparr>t = Pawn, p = turn s, pr = False\<rparr>) \<and>
        \<not> ((turn s = B \<and> r = 0) \<or> (turn s = W \<and> r = 8))"
    unfolding genAllPseudo_DropMove_iff ex[symmetric]
    by (auto simp: dropAllowed_def)
  have one: "legalMoves s = Inr ms \<and> DropMove Pawn (r, c) \<in> set ms \<and> r' < 9 \<longrightarrow>
      cellAt (board s) r' c \<noteq> Some \<lparr>t = Pawn, p = turn s, pr = False\<rparr>"
  proof (intro impI, elim conjE)
    assume "legalMoves s = Inr ms" "DropMove Pawn (r, c) \<in> set ms" "r' < 9"
    with legalMoves_subset have "DropMove Pawn (r, c) \<in> set (genAllPseudo s)" by blast
    with two \<open>r' < 9\<close> show "cellAt (board s) r' c \<noteq> Some \<lparr>t = Pawn, p = turn s, pr = False\<rparr>"
      by blast
  qed
  from one two show ?thesis by blast
qed

lemma legalMoves_exPosition: "legalMoves exPosition = Inr (genAllPseudo exPosition)"
  by code_simp

lemma turn_exPosition: "turn exPosition = B"
  by (simp add: exPosition_def)

lemma wf_exPosition: "wf_board (board exPosition)"
  by (simp add: exPosition_def wf_exBoard)

theorem nifu_witness:
  "legalMoves exPosition = Inr (genAllPseudo exPosition) \<and>
   DropMove Pawn (4, 3) \<in> set (genAllPseudo exPosition) \<and>
   cellAt (board exPosition) 2 3 = Some \<lparr>t = Pawn, p = B, pr = True\<rparr> \<and>
   cellAt (board exPosition) 2 3 \<noteq> Some \<lparr>t = Pawn, p = turn exPosition, pr = False\<rparr> \<and>
   cellAt (board exPosition) 1 4 = Some \<lparr>t = Pawn, p = turn exPosition, pr = False\<rparr> \<and>
   DropMove Pawn (4, 4) \<notin> set (genAllPseudo exPosition)"
proof -
  have d: "DropMove Pawn (4, 3) \<in> set (genAllPseudo exPosition)"
    by code_simp
  have c23: "cellAt (board exPosition) 2 3 = Some \<lparr>t = Pawn, p = B, pr = True\<rparr>"
    by code_simp
  have c14: "cellAt (board exPosition) 1 4 = Some \<lparr>t = Pawn, p = turn exPosition, pr = False\<rparr>"
    by code_simp
  have "cellAt (board exPosition) 2 3 \<noteq> Some \<lparr>t = Pawn, p = turn exPosition, pr = False\<rparr>"
    using nifu [of exPosition "genAllPseudo exPosition" 4 3 2] legalMoves_exPosition d by simp
  moreover have "DropMove Pawn (4, 4) \<notin> set (genAllPseudo exPosition)"
    using nifu [of exPosition "genAllPseudo exPosition" 4 4 1] c14 by auto
  ultimately show ?thesis
    using legalMoves_exPosition d c23 c14 by simp
qed

section \<open>Forced promotion\<close>

text \<open>
  C4. A board move of \<^verbatim>\<open>genAllPseudo\<close> or of \<^verbatim>\<open>legalMoves\<close> whose moving piece has type
  pawn or lance and whose target row is the mover's last rank (row 0 for Sente, row 8 for
  Gote) has \<^verbatim>\<open>promote\<close> true, and so has one that moves a knight into row 0 or 1 for
  Sente, row 7 or 8 for Gote; the same move with \<^verbatim>\<open>promote\<close> false is therefore never
  in the list.
\<close>

theorem forced_promotion:
  assumes "m \<in> set (genAllPseudo s) \<or> (\<exists>ms. legalMoves s = Inr ms \<and> m \<in> set ms)"
    and "m = BoardMove (fr, fc) (tr, tc) pro"
    and "cellAt (board s) fr fc = Some pc"
  shows "((t pc = Pawn \<or> t pc = Lance) \<and> tr = (if turn s = B then 0 else 8) \<longrightarrow> pro = True)
       \<and> (t pc = Knight \<and> (if turn s = B then tr \<le> 1 else tr \<ge> 7) \<longrightarrow> pro = True)"
proof -
  from assms(1) legalMoves_subset have "m \<in> set (genAllPseudo s)" by blast
  with assms(2) have "BoardMove (fr, fc) (tr, tc) pro \<in> set (genAllPseudo s)" by simp
  from pseudo_BoardMove[OF this] assms(3) have
    own: "p pc = turn s" and forced: "PROMOTABLE (t pc) \<and> mustPromote pc tr \<longrightarrow> pro"
    by auto
  show ?thesis
    using own forced by (cases "turn s") (auto simp: PROMOTABLE_def mustPromote_def)
qed

theorem forced_promotion_witness:
  "BoardMove (1, 4) (0, 4) True \<in> set (genAllPseudo exPosition) \<and>
   cellAt (board exPosition) 1 4 = Some \<lparr>t = Pawn, p = B, pr = False\<rparr> \<and>
   turn exPosition = B \<and>
   BoardMove (1, 4) (0, 4) False \<notin> set (genAllPseudo exPosition) \<and>
   BoardMove (3, 1) (1, 2) True \<in> set (genAllPseudo exPosition) \<and>
   cellAt (board exPosition) 3 1 = Some \<lparr>t = Knight, p = B, pr = False\<rparr> \<and>
   BoardMove (3, 1) (1, 2) False \<notin> set (genAllPseudo exPosition)"
proof -
  have a: "BoardMove (1, 4) (0, 4) True \<in> set (genAllPseudo exPosition)"
    by code_simp
  have b: "cellAt (board exPosition) 1 4 = Some \<lparr>t = Pawn, p = B, pr = False\<rparr>"
    by code_simp
  have c: "BoardMove (3, 1) (1, 2) True \<in> set (genAllPseudo exPosition)"
    by code_simp
  have d: "cellAt (board exPosition) 3 1 = Some \<lparr>t = Knight, p = B, pr = False\<rparr>"
    by code_simp
  have "BoardMove (1, 4) (0, 4) False \<notin> set (genAllPseudo exPosition)"
    using forced_promotion [of "BoardMove (1, 4) (0, 4) False" exPosition 1 4 0 4 False, OF _ refl b]
    by (auto simp: turn_exPosition)
  moreover have "BoardMove (3, 1) (1, 2) False \<notin> set (genAllPseudo exPosition)"
    using forced_promotion [of "BoardMove (3, 1) (1, 2) False" exPosition 3 1 1 2 False, OF _ refl d]
    by (auto simp: turn_exPosition)
  moreover note forced_promotion [of "BoardMove (1, 4) (0, 4) True" exPosition 1 4 0 4 True, OF _ refl b]
  ultimately show ?thesis
    using a b c d by (simp add: turn_exPosition)
qed

section \<open>Conservation of the pieces\<close>

lemma filter_length_update:
  assumes "i < length xs"
  shows "int (length (filter P (xs[i := v]))) =
         int (length (filter P xs)) - (if P (xs ! i) then 1 else 0) + (if P v then 1 else 0)"
proof -
  have a: "xs[i := v] = take i xs @ v # drop (Suc i) xs"
    using assms by (rule upd_conv_take_nth_drop)
  have b: "xs = take i xs @ xs ! i # drop (Suc i) xs"
    using assms by (rule id_take_nth_drop)
  have "int (length (filter P xs)) =
        int (length (filter P (take i xs))) + (if P (xs ! i) then 1 else 0)
        + int (length (filter P (drop (Suc i) xs)))"
    by (subst b) simp
  moreover have "int (length (filter P (xs[i := v]))) =
        int (length (filter P (take i xs))) + (if P v then 1 else 0)
        + int (length (filter P (drop (Suc i) xs)))"
    by (subst a) simp
  ultimately show ?thesis by simp
qed

lemma sum_list_map_update:
  fixes f :: "'a \<Rightarrow> int"
  assumes "i < length xs"
  shows "sum_list (map f (xs[i := v])) = sum_list (map f xs) - f (xs ! i) + f v"
proof -
  have a: "xs[i := v] = take i xs @ v # drop (Suc i) xs"
    using assms by (rule upd_conv_take_nth_drop)
  have b: "xs = take i xs @ xs ! i # drop (Suc i) xs"
    using assms by (rule id_take_nth_drop)
  have "sum_list (map f xs) =
        sum_list (map f (take i xs)) + f (xs ! i) + sum_list (map f (drop (Suc i) xs))"
    by (subst b) simp
  moreover have "sum_list (map f (xs[i := v])) =
        sum_list (map f (take i xs)) + f v + sum_list (map f (drop (Suc i) xs))"
    by (subst a) simp
  ultimately show ?thesis by simp
qed

lemma boardCount_setCell:
  assumes "r < length b" and "c < length (b ! r)"
  shows "boardCount (setCell b r c v) =
         boardCount b - (if cellAt b r c \<noteq> None then 1 else 0) + (if v \<noteq> None then 1 else 0)"
  using assms
  by (simp add: boardCount_def setCell_def rowSet_def cellAt_def sum_list_map_update
        filter_length_update)

lemma cellAt_setCell:
  assumes "r < length b" and "c < length (b ! r)"
  shows "cellAt (setCell b r c v) r' c' = (if r' = r \<and> c' = c then v else cellAt b r' c')"
  using assms
  by (auto simp: setCell_def rowSet_def cellAt_def nth_list_update)

lemma wf_board_setCell:
  "wf_board b \<Longrightarrow> r < 9 \<Longrightarrow> c < 9 \<Longrightarrow> wf_board (setCell b r c v)"
  by (auto simp: wf_board_def setCell_def rowSet_def BOARD_SIZE_def list_all_length nth_list_update)

lemma wf_board_dims: "wf_board b \<Longrightarrow> r < 9 \<Longrightarrow> r < length b \<and> length (b ! r) = 9"
  by (simp add: wf_board_def BOARD_SIZE_def list_all_length)

lemma handTotal_upd: "handTotal (h(x \<mapsto> n)) = handTotal h - hcount h x + n"
  by (cases x) (simp_all add: handTotal_def TYPES_def hcount_def)

lemma handsWithin_iff: "handsWithin k s \<longleftrightarrow> (\<forall>pl x. \<bar>hcount (hands s pl) x\<bar> \<le> k)"
proof -
  have "\<And>Q. (\<forall>pl. Q pl) \<longleftrightarrow> Q B \<and> Q W"
    by (metis side.exhaust)
  then show ?thesis
    by (simp add: handsWithin_def list_all_iff set_TYPES)
qed

lemma handsWithin_step:
  assumes "handsWithin k s" and "d = 1 \<or> d = - 1"
    and "hands ns = (hands s)(pl := (hands s pl)(x \<mapsto> hcount (hands s pl) x + d))"
  shows "handsWithin (k + 1) ns"
proof -
  from assms(1) have b: "\<And>q y. \<bar>hcount (hands s q) y\<bar> \<le> k"
    by (simp add: handsWithin_iff)
  have "\<bar>hcount (hands ns q) y\<bar> \<le> k + 1" for q y
    using b[of q y] b[of pl x] assms(2)
    by (auto simp: assms(3) hcount_upd)
  then show ?thesis
    by (simp add: handsWithin_iff)
qed

lemma handsWithin_same:
  assumes "handsWithin k s" and "hands ns = hands s"
  shows "handsWithin (k + 1) ns"
proof -
  from assms(1) have b: "\<And>q y. \<bar>hcount (hands s q) y\<bar> \<le> k"
    by (simp add: handsWithin_iff)
  have "\<bar>hcount (hands ns q) y\<bar> \<le> k + 1" for q y
    using b[of q y] by (simp add: assms(2))
  then show ?thesis
    by (simp add: handsWithin_iff)
qed

lemma makeMove_board_effect:
  assumes wf: "wf_board (board s)"
    and m: "BoardMove src dst pro \<in> set (genAllPseudo s)"
  shows "\<exists>ns. makeMove s (BoardMove src dst pro) = Inr ns \<and> totalPieces ns = totalPieces s \<and>
           (case cellAt (board s) (fst dst) (snd dst) of
              None \<Rightarrow> boardCount (board ns) = boardCount (board s) \<and> hands ns = hands s
            | Some cp \<Rightarrow>
                boardCount (board ns) = boardCount (board s) - 1 \<and>
                demote cp = \<lparr>t = t cp, p = turn s, pr = False\<rparr> \<and>
                hands ns = (hands s)(turn s := (hands s (turn s))
                             (t cp \<mapsto> hcount (hands s (turn s)) (t cp) + 1)))"
proof -
  obtain fr fc where src: "src = (fr, fc)" by (cases src)
  obtain tr tc where dst: "dst = (tr, tc)" by (cases dst)
  from pseudo_BoardMove[OF m] src dst obtain pc where
    fr: "fr < 9" and fc: "fc < 9" and pc: "cellAt (board s) fr fc = Some pc" and own: "p pc = turn s"
    and tr: "tr < 9" and tc: "tc < 9"
    and tgt: "case cellAt (board s) tr tc of None \<Rightarrow> True | Some x \<Rightarrow> p x \<noteq> turn s"
    by auto
  from pc own tgt have ne: "\<not> (fr = tr \<and> fc = tc)" by auto
  define moving where "moving = (if pro then promotePiece pc else pc)"
  define b1 where "b1 = setCell (board s) tr tc (Some moving)"
  from wf_board_dims[OF wf tr] tc have d1: "tr < length (board s)" "tc < length (board s ! tr)" by auto
  from wf_board_setCell[OF wf tr tc] have wf1: "wf_board b1" by (simp add: b1_def)
  from wf_board_dims[OF wf1 fr] fc have d2: "fr < length b1" "fc < length (b1 ! fr)" by auto
  have c1: "cellAt b1 fr fc = Some pc"
    using ne pc by (auto simp: b1_def cellAt_setCell[OF d1])
  have bc: "boardCount (setCell b1 fr fc None) =
            boardCount (board s) - (if cellAt (board s) tr tc \<noteq> None then 1 else 0)"
    by (simp add: boardCount_setCell[OF d2] c1) (simp add: b1_def boardCount_setCell[OF d1])
  from wf_board_dims[OF wf fr] d1 have len: "\<not> (length (board s) \<le> fr \<or> length (board s) \<le> tr)" by auto
  show ?thesis
  proof (cases "cellAt (board s) tr tc")
    case None
    then show ?thesis
      using bc len pc
      by (simp add: src dst makeMove_def Let_def totalPieces_def b1_def moving_def)
  next
    case (Some cp)
    with tgt have "p cp \<noteq> turn s" by simp
    then have dm: "demote cp = \<lparr>t = t cp, p = turn s, pr = False\<rparr>"
      by (cases "p cp"; cases "turn s") (simp_all add: demote_def)
    have tdm: "t (demote cp) = t cp" by (simp add: demote_def)
    show ?thesis
      using Some bc len pc dm
      by (cases "turn s")
         (simp_all add: src dst makeMove_def Let_def totalPieces_def b1_def moving_def
            handTotal_upd tdm)
  qed
qed

lemma makeMove_drop_effect:
  assumes wf: "wf_board (board s)"
    and m: "DropMove x dst \<in> set (genAllPseudo s)"
  shows "\<exists>ns. makeMove s (DropMove x dst) = Inr ns \<and> totalPieces ns = totalPieces s \<and>
           boardCount (board ns) = boardCount (board s) + 1 \<and>
           hands ns = (hands s)(turn s := (hands s (turn s))
                        (x \<mapsto> hcount (hands s (turn s)) x - 1))"
proof -
  obtain r c where dst: "dst = (r, c)" by (cases dst)
  from pseudo_DropMove[OF m] dst have r: "r < 9" and c: "c < 9" and al: "dropAllowed s x (r, c)"
    by auto
  from al have emp: "cellAt (board s) r c = None"
    by (auto simp: dropAllowed_def split: if_splits)
  from wf_board_dims[OF wf r] c have d: "r < length (board s)" "c < length (board s ! r)" by auto
  show ?thesis
    using d emp
    by (cases "turn s")
       (simp_all add: dst makeMove_def totalPieces_def boardCount_setCell[OF d] handTotal_upd)
qed

text \<open>
  C7. On a nine by nine board whose hand counts are integers of magnitude at most
  \<^verbatim>\<open>Number.MAX_SAFE_INTEGER\<close>, every move that \<^verbatim>\<open>legalMoves\<close> returns is applied normally
  and leaves the total number of pieces, those on the board plus all hand counts of both
  sides, unchanged, and the new counts are still integers a double holds exactly. A board
  move onto an empty square leaves the number of pieces on the board and both hands as
  they are. A capture takes one piece off the board; the captured piece, demoted to
  "its type, owned by the mover, unpromoted", is counted in the mover's hand under its
  type, whose count grows by one, and no other hand entry changes. A drop puts one piece
  on the board and lowers the mover's count of that type by one.
\<close>

theorem makeMove_conserves_pieces:
  assumes "wf_board (board s)" and "handsSafe s" and "legalMoves s = Inr ms" and "m \<in> set ms"
  shows "\<exists>ns. makeMove s m = Inr ns \<and> totalPieces ns = totalPieces s \<and>
           handsWithin (MAX_SAFE_INTEGER + 1) ns \<and>
           (case m of
              BoardMove src dst pro \<Rightarrow>
                (case cellAt (board s) (fst dst) (snd dst) of
                   None \<Rightarrow> boardCount (board ns) = boardCount (board s) \<and> hands ns = hands s
                 | Some cp \<Rightarrow>
                     boardCount (board ns) = boardCount (board s) - 1 \<and>
                     demote cp = \<lparr>t = t cp, p = turn s, pr = False\<rparr> \<and>
                     hands ns = (hands s)(turn s := (hands s (turn s))
                                  (t cp \<mapsto> hcount (hands s (turn s)) (t cp) + 1)))
            | DropMove x dst \<Rightarrow>
                boardCount (board ns) = boardCount (board s) + 1 \<and>
                hands ns = (hands s)(turn s := (hands s (turn s))
                             (x \<mapsto> hcount (hands s (turn s)) x - 1)))"
proof -
  from assms(3,4) legalMoves_subset have ps: "m \<in> set (genAllPseudo s)" by blast
  from assms(2) have hw: "handsWithin MAX_SAFE_INTEGER s" by (simp add: handsSafe_def)
  show ?thesis
  proof (cases m)
    case (BoardMove src dst pro)
    with ps have "BoardMove src dst pro \<in> set (genAllPseudo s)" by simp
    from makeMove_board_effect[OF assms(1) this] obtain ns where
      ns: "makeMove s (BoardMove src dst pro) = Inr ns" "totalPieces ns = totalPieces s"
      and eff: "case cellAt (board s) (fst dst) (snd dst) of
              None \<Rightarrow> boardCount (board ns) = boardCount (board s) \<and> hands ns = hands s
            | Some cp \<Rightarrow>
                boardCount (board ns) = boardCount (board s) - 1 \<and>
                demote cp = \<lparr>t = t cp, p = turn s, pr = False\<rparr> \<and>
                hands ns = (hands s)(turn s := (hands s (turn s))
                             (t cp \<mapsto> hcount (hands s (turn s)) (t cp) + 1))"
      by blast
    have "handsWithin (MAX_SAFE_INTEGER + 1) ns"
    proof (cases "cellAt (board s) (fst dst) (snd dst)")
      case None
      with eff have "hands ns = hands s" by simp
      with hw show ?thesis by (rule handsWithin_same)
    next
      case (Some cp)
      with eff have "hands ns = (hands s)(turn s := (hands s (turn s))
                             (t cp \<mapsto> hcount (hands s (turn s)) (t cp) + 1))" by simp
      with hw show ?thesis by (intro handsWithin_step[where d = 1]) simp_all
    qed
    with ns eff BoardMove show ?thesis by simp
  next
    case (DropMove x dst)
    with ps have "DropMove x dst \<in> set (genAllPseudo s)" by simp
    from makeMove_drop_effect[OF assms(1) this] obtain ns where
      ns: "makeMove s (DropMove x dst) = Inr ns" "totalPieces ns = totalPieces s"
          "boardCount (board ns) = boardCount (board s) + 1"
      and h: "hands ns = (hands s)(turn s := (hands s (turn s))
                        (x \<mapsto> hcount (hands s (turn s)) x - 1))"
      by blast
    from h have "hands ns = (hands s)(turn s := (hands s (turn s))
                        (x \<mapsto> hcount (hands s (turn s)) x + (- 1)))" by simp
    with hw have "handsWithin (MAX_SAFE_INTEGER + 1) ns"
      by (intro handsWithin_step[where d = "- 1"]) simp_all
    with ns h DropMove show ?thesis by simp
  qed
qed

theorem makeMove_conserves_pieces_witness:
  "wf_board (board exPosition) \<and> handsSafe exPosition \<and>
   legalMoves exPosition = Inr (genAllPseudo exPosition) \<and>
   BoardMove (1, 4) (0, 4) True \<in> set (genAllPseudo exPosition) \<and>
   cellAt (board exPosition) 0 4 = Some \<lparr>t = Gold, p = W, pr = False\<rparr> \<and>
   totalPieces exPosition = 9 \<and> boardCount (board exPosition) = 8 \<and>
   hcount (hands exPosition B) Gold = 0 \<and>
   (\<exists>ns. makeMove exPosition (BoardMove (1, 4) (0, 4) True) = Inr ns \<and> totalPieces ns = 9 \<and>
         boardCount (board ns) = 7 \<and> hcount (hands ns B) Gold = 1 \<and>
         hcount (hands ns B) Pawn = 1 \<and> hcount (hands ns W) Gold = 0)"
proof -
  have a: "BoardMove (1, 4) (0, 4) True \<in> set (genAllPseudo exPosition)"
    by code_simp
  have b: "cellAt (board exPosition) 0 4 = Some \<lparr>t = Gold, p = W, pr = False\<rparr>"
    by code_simp
  have c: "totalPieces exPosition = 9"
    by code_simp
  have d: "boardCount (board exPosition) = 8"
    by code_simp
  have e: "handsSafe exPosition"
    by (simp add: handsSafe_def handsWithin_def MAX_SAFE_INTEGER_def exPosition_def hcount_def
          TYPES_def)
  have f: "hands exPosition = (\<lambda>pl. if pl = B then [Pawn \<mapsto> 1] else Map.empty)"
    by (simp add: exPosition_def)
  from makeMove_conserves_pieces [OF wf_exPosition e legalMoves_exPosition a] b c d
  obtain ns where
    "makeMove exPosition (BoardMove (1, 4) (0, 4) True) = Inr ns" "totalPieces ns = 9"
    "boardCount (board ns) = 7"
    "hands ns = (hands exPosition)(B := (hands exPosition B)
                   (Gold \<mapsto> hcount (hands exPosition B) Gold + 1))"
    by (auto simp: turn_exPosition)
  then show ?thesis
    using a b c d e wf_exPosition legalMoves_exPosition
    by (auto simp: f hcount_def)
qed

section \<open>The promoted flag\<close>

lemma promotePiece_id: "\<not> PROMOTABLE (t pc) \<Longrightarrow> promotePiece pc = pc"
  by (simp add: promotePiece_def)

lemma pieceOk_promotePiece: "pieceOk (Some pc) \<Longrightarrow> pieceOk (Some (promotePiece pc))"
  by (auto simp: pieceOk_def promotePiece_def)

lemma promotedOk_cellAt: "promotedOk b \<Longrightarrow> pieceOk (cellAt b r c)"
  by (auto simp: promotedOk_def cellAt_def list_all_length pieceOk_def)

lemma promotedOk_setCell:
  assumes "promotedOk b" and "pieceOk v"
  shows "promotedOk (setCell b r c v)"
proof -
  have row: "\<And>row. list_all pieceOk row \<Longrightarrow> list_all pieceOk (rowSet row c v)"
    using assms(2)
    by (auto simp: rowSet_def list_all_iff pieceOk_def dest: set_update_subset_insert[THEN subsetD])
  show ?thesis
  proof (cases "r < length b")
    case True
    with assms(1) have "list_all pieceOk (b ! r)"
      by (simp add: promotedOk_def list_all_length)
    from row[OF this] assms(1) show ?thesis
      by (auto simp: promotedOk_def setCell_def list_all_iff dest: set_update_subset_insert[THEN subsetD])
  next
    case False
    with assms(1) show ?thesis by (simp add: setCell_def list_update_beyond)
  qed
qed

lemma makeMove_promotedOk:
  assumes "makeMove s m = Inr ns" and "promotedOk (board s)"
  shows "promotedOk (board ns)"
proof (cases m)
  case (BoardMove src dst pro)
  obtain fr fc where src: "src = (fr, fc)" by (cases src)
  obtain tr tc where dst: "dst = (tr, tc)" by (cases dst)
  from assms(1) BoardMove src dst obtain pc where
    pc: "cellAt (board s) fr fc = Some pc"
    and ns: "board ns = setCell (setCell (board s) tr tc (Some (if pro then promotePiece pc else pc))) fr fc None"
    by (auto simp: makeMove_def Let_def split: if_splits option.splits)
  from promotedOk_cellAt[OF assms(2), of fr fc] pc have ok: "pieceOk (Some pc)" by simp
  then have "pieceOk (Some (if pro then promotePiece pc else pc))"
    by (simp add: pieceOk_promotePiece)
  from promotedOk_setCell[OF promotedOk_setCell[OF assms(2) this]] show ?thesis
    by (simp add: ns pieceOk_def)
next
  case (DropMove x dst)
  obtain r c where dst: "dst = (r, c)" by (cases dst)
  from assms(1) DropMove dst have
    "board ns = setCell (board s) r c (Some \<lparr>t = x, p = turn s, pr = False\<rparr>)"
    by (auto simp: makeMove_def split: if_splits)
  with promotedOk_setCell[OF assms(2)] show ?thesis
    by (simp add: pieceOk_def)
qed

lemma makeMove_king_gold:
  assumes wf: "wf_board (board s)" and ok: "promotedOk (board s)"
    and rng: "fr < 9" "fc < 9" "tr < 9" "tc < 9" and ne: "(fr, fc) \<noteq> (tr, tc)"
    and pc: "cellAt (board s) fr fc = Some pc" and kg: "t pc = King \<or> t pc = Gold"
  shows "\<exists>ns. makeMove s (BoardMove (fr, fc) (tr, tc) pro) = Inr ns \<and>
              cellAt (board ns) tr tc = Some pc \<and> pr pc = False"
proof -
  from kg have np: "\<not> PROMOTABLE (t pc)" by (auto simp: PROMOTABLE_def)
  from promotedOk_cellAt[OF ok, of fr fc] pc np have unp: "pr pc = False"
    by (simp add: pieceOk_def)
  from wf_board_dims[OF wf rng(3)] rng(4) have d1: "tr < length (board s)" "tc < length (board s ! tr)" by auto
  have wf1: "wf_board (setCell (board s) tr tc (Some pc))"
    by (rule wf_board_setCell[OF wf rng(3,4)])
  from wf_board_dims[OF wf1 rng(1)] rng(2) have
    d2: "fr < length (setCell (board s) tr tc (Some pc))"
        "fc < length (setCell (board s) tr tc (Some pc) ! fr)" by auto
  from wf_board_dims[OF wf rng(1)] d1 have len: "\<not> (length (board s) \<le> fr \<or> length (board s) \<le> tr)" by auto
  show ?thesis
    using len pc ne unp
    by (auto simp: makeMove_def Let_def promotePiece_id[OF np] cellAt_setCell[OF d2] cellAt_setCell[OF d1])
qed

lemma promotedOk_initialState: "promotedOk (board initialState)"
  by code_simp

text \<open>
  C9. \<^verbatim>\<open>promotePiece\<close> returns a piece whose type is not promotable unchanged. So on a
  position that satisfies the invariant, a board move of a king or a gold to another
  square places that very piece, with \<^verbatim>\<open>pr\<close> false, on the target, also when the move
  carries \<^verbatim>\<open>promote\<close> true. \<^verbatim>\<open>makeMove\<close> preserves the invariant for every move it
  applies, and the initial position satisfies it.
\<close>

theorem promoted_only_if_promotable:
  "(\<not> PROMOTABLE (t pc) \<longrightarrow> promotePiece pc = pc)
   \<and> (wf_board (board s) \<and> promotedOk (board s) \<and> fr < 9 \<and> fc < 9 \<and> tr < 9 \<and> tc < 9 \<and>
        (fr, fc) \<noteq> (tr, tc) \<and> cellAt (board s) fr fc = Some pc \<and> (t pc = King \<or> t pc = Gold)
      \<longrightarrow> (\<exists>ns. makeMove s (BoardMove (fr, fc) (tr, tc) pro) = Inr ns \<and>
                 cellAt (board ns) tr tc = Some pc \<and> pr pc = False))
   \<and> (promotedOk (board s) \<and> makeMove s m = Inr ns' \<longrightarrow> promotedOk (board ns'))
   \<and> promotedOk (board initialState)"
  using promotePiece_id[of pc] makeMove_king_gold[of s fr fc tr tc pc pro]
    makeMove_promotedOk[of s m ns'] promotedOk_initialState
  by blast

theorem promoted_only_if_promotable_witness:
  "wf_board (board exPosition) \<and> promotedOk (board exPosition) \<and>
   cellAt (board exPosition) 2 7 = Some \<lparr>t = Gold, p = B, pr = False\<rparr> \<and>
   \<not> PROMOTABLE Gold \<and>
   promotePiece \<lparr>t = Gold, p = B, pr = False\<rparr> = \<lparr>t = Gold, p = B, pr = False\<rparr> \<and>
   (\<exists>ns. makeMove exPosition (BoardMove (2, 7) (1, 7) True) = Inr ns \<and>
         cellAt (board ns) 1 7 = Some \<lparr>t = Gold, p = B, pr = False\<rparr> \<and>
         promotedOk (board ns))"
proof -
  have a: "promotedOk (board exPosition)"
    by code_simp
  have b: "cellAt (board exPosition) 2 7 = Some \<lparr>t = Gold, p = B, pr = False\<rparr>"
    by code_simp
  have c: "\<not> PROMOTABLE Gold"
    by (simp add: PROMOTABLE_def)
  note th = promoted_only_if_promotable
    [of "\<lparr>t = Gold, p = B, pr = False\<rparr>" exPosition 2 7 1 7 True "BoardMove (2, 7) (1, 7) True"]
  from th a b wf_exPosition obtain ns where
    ns: "makeMove exPosition (BoardMove (2, 7) (1, 7) True) = Inr ns"
        "cellAt (board ns) 1 7 = Some \<lparr>t = Gold, p = B, pr = False\<rparr>"
    by auto
  from th [of ns] a ns(1) have "promotedOk (board ns)"
    by blast
  with th [of ns] ns a b c wf_exPosition show ?thesis
    by auto
qed

section \<open>Absent hand keys\<close>








section \<open>The argument of \<^verbatim>\<open>makeMove\<close> is left as it was\<close>

lemma objAt_append_fresh: "objAt (h @ xs) (length h + i) = objAt xs i"
  by (simp add: objAt_def)

lemma objAt_append_old: "a < length h \<Longrightarrow> objAt (h @ xs) a = objAt h a"
  by (simp add: objAt_def nth_append)

lemma update_append_fresh: "(h @ xs)[length h + i := x] = h @ xs[i := x]"
  by (simp add: list_update_append)

lemma length_freshObjects: "length (freshObjects n s) = length (board s) + 5"
  by (simp add: freshObjects_def Let_def)

lemma fresh_row:
  "r < length (board s) \<Longrightarrow> objAt (freshObjects n s) r = Some (ORow (board s ! r))"
  by (simp add: freshObjects_def Let_def objAt_def nth_append)

lemma fresh_fixed:
  "objAt (freshObjects n s) (length (board s)) = Some (OBoard [n..<n + length (board s)])"
  "objAt (freshObjects n s) (length (board s) + 1) = Some (OHand (hands s B))"
  "objAt (freshObjects n s) (length (board s) + 2) = Some (OHand (hands s W))"
  "objAt (freshObjects n s) (length (board s) + 3)
     = Some (OHands (n + length (board s) + 1) (n + length (board s) + 2))"
  "objAt (freshObjects n s) (length (board s) + 4)
     = Some (OState (n + length (board s)) (n + length (board s) + 3) (turn s))"
  by (simp_all add: freshObjects_def Let_def objAt_def nth_append)

lemma fresh_update_row:
  "r < length (board s) \<Longrightarrow>
     (freshObjects n s)[r := ORow row] = freshObjects n (s\<lparr>board := (board s)[r := row]\<rparr>)"
  by (simp add: freshObjects_def Let_def list_update_append map_update)

lemma fresh_update_hand:
  "(freshObjects n s)[length (board s) + 1 := OHand hm]
     = freshObjects n (s\<lparr>hands := (hands s)(B := hm)\<rparr>)"
  "(freshObjects n s)[length (board s) + 2 := OHand hm]
     = freshObjects n (s\<lparr>hands := (hands s)(W := hm)\<rparr>)"
  by (simp_all add: freshObjects_def Let_def list_update_append)

lemma fresh_update_turn:
  "(freshObjects n s)[length (board s) + 4 := OState (n + length (board s)) (n + length (board s) + 3) tn]
     = freshObjects n (s\<lparr>turn := tn\<rparr>)"
  by (simp add: freshObjects_def Let_def list_update_append)

lemma readRows_upt:
  "(\<And>i. i < length b \<Longrightarrow> objAt h (n + i) = Some (ORow (b ! i))) \<Longrightarrow>
     readRows h [n..<n + length b] = Some b"
proof (induction b arbitrary: n)
  case Nil
  show ?case by simp
next
  case (Cons x xs)
  have "objAt h n = Some (ORow x)"
    using Cons.prems[of 0] by simp
  moreover have "readRows h [Suc n..<Suc n + length xs] = Some xs"
  proof (rule Cons.IH)
    fix i assume "i < length xs"
    then show "objAt h (Suc n + i) = Some (ORow (xs ! i))"
      using Cons.prems[of "Suc i"] by simp
  qed
  moreover have "[n..<n + length (x # xs)] = n # [Suc n..<Suc n + length xs]"
    by (simp add: upt_conv_Cons del: upt_Suc)
  ultimately show ?case
    by (simp del: upt_Suc)
qed

lemma objAt_Some_less: "objAt h a = Some x \<Longrightarrow> a < length h"
  by (simp add: objAt_def split: if_splits)

lemma objAt_extend: "objAt h a = Some x \<Longrightarrow> objAt (h @ xs) a = Some x"
  by (frule objAt_Some_less) (simp add: objAt_append_old)

lemma readRows_extend: "readRows h as = Some b \<Longrightarrow> readRows (h @ xs) as = Some b"
proof (induction as arbitrary: b)
  case Nil
  then show ?case by simp
next
  case (Cons a as)
  from Cons.prems obtain cells rest where
    a: "objAt h a = Some (ORow cells)" and r: "readRows h as = Some rest" and b: "b = cells # rest"
    by (auto split: option.splits jsobj.splits)
  from objAt_extend[OF a] Cons.IH[OF r] b show ?case by simp
qed

lemma readHand_extend:
  assumes "readHand h a = Some hm"
  shows "readHand (h @ xs) a = Some hm"
proof -
  from assms have "objAt h a = Some (OHand hm)"
    by (auto simp: readHand_def split: option.splits jsobj.splits)
  from objAt_extend[OF this] show ?thesis
    by (simp add: readHand_def)
qed

lemma readState_extend:
  assumes "readState h a = Some s"
  shows "readState (h @ xs) a = Some s"
proof -
  from assms obtain bref href tn rows b hb hw mb mw where
    st: "objAt h a = Some (OState bref href tn)" and bo: "objAt h bref = Some (OBoard rows)"
    and rr: "readRows h rows = Some b" and hs: "objAt h href = Some (OHands hb hw)"
    and rb: "readHand h hb = Some mb" and rw: "readHand h hw = Some mw"
    and s: "s = \<lparr>board = b, hands = (\<lambda>pl. if pl = B then mb else mw), turn = tn\<rparr>"
    by (auto simp: readState_def split: option.splits jsobj.splits)
  show ?thesis
    using objAt_extend[OF st] objAt_extend[OF bo] readRows_extend[OF rr] objAt_extend[OF hs]
      readHand_extend[OF rb] readHand_extend[OF rw] s
    by (simp add: readState_def)
qed

lemma hands_eta: "(\<lambda>pl. if pl = B then hands s B else hands s W) = hands s"
proof
  fix pl show "(if pl = B then hands s B else hands s W) = hands s pl"
    by (cases pl) simp_all
qed

lemma fresh_at:
  "objAt (h @ freshObjects n s) (length h + length (board s))
     = Some (OBoard [n..<n + length (board s)])"
  "objAt (h @ freshObjects n s) (length h + length (board s) + 1) = Some (OHand (hands s B))"
  "objAt (h @ freshObjects n s) (length h + length (board s) + 2) = Some (OHand (hands s W))"
  "objAt (h @ freshObjects n s) (length h + length (board s) + 3)
     = Some (OHands (n + length (board s) + 1) (n + length (board s) + 2))"
  "objAt (h @ freshObjects n s) (length h + length (board s) + 4)
     = Some (OState (n + length (board s)) (n + length (board s) + 3) (turn s))"
  using fresh_fixed[of n s] by (simp_all only: add.assoc objAt_append_fresh)

lemma fresh_row_at:
  "r < length (board s) \<Longrightarrow>
     objAt (h @ freshObjects n s) (length h + r) = Some (ORow (board s ! r))"
  by (simp only: objAt_append_fresh fresh_row)

lemma readState_buildState:
  "buildState h s = (a, h') \<Longrightarrow> readState h' a = Some s"
proof -
  assume "buildState h s = (a, h')"
  then have a: "a = length h + length (board s) + 4" and h': "h' = h @ freshObjects (length h) s"
    by (simp_all add: buildState_def)
  have rows: "readRows h' [length h..<length h + length (board s)] = Some (board s)"
    unfolding h' by (rule readRows_upt) (rule fresh_row_at)
  show ?thesis
    unfolding a h' readState_def
    by (simp add: fresh_at[simplified] readHand_def rows[unfolded h'] hands_eta)
qed

lemma readCellS_fresh:
  assumes "length (board v) = k"
  shows "readCellS (h @ freshObjects (length h) v) [length h..<length h + k] r c
         = (if r \<ge> k then Inl TypeError else Inr (cellAt (board v) r c))"
  using assms fresh_row_at[of r v h "length h"]
  by (simp add: readCellS_def cellAt_def)

lemma writeCellS_fresh:
  assumes "length (board v) = k"
  shows "writeCellS (h @ freshObjects (length h) v) [length h..<length h + k] r c x
         = (if r \<ge> k then Inl TypeError
            else Inr (h @ freshObjects (length h) (v\<lparr>board := setCell (board v) r c x\<rparr>)))"
  using assms fresh_row_at[of r v h "length h"]
  by (simp add: writeCellS_def update_append_fresh fresh_update_row setCell_def)

lemma addHandS_fresh:
  assumes "length (board v) = k"
  shows "addHandS (h @ freshObjects (length h) v)
           (if pl = B then length h + k + 1 else length h + k + 2) x d
         = Inr (h @ freshObjects (length h)
                  (v\<lparr>hands := (hands v)(pl := (hands v pl)(x \<mapsto> hcount (hands v pl) x + d))\<rparr>))"
proof (cases pl)
  case B
  have "(h @ freshObjects (length h) v)[length h + (length (board v) + 1) := OHand hm]
        = h @ freshObjects (length h) (v\<lparr>hands := (hands v)(B := hm)\<rparr>)" for hm
    by (simp only: update_append_fresh fresh_update_hand)
  then show ?thesis
    using assms fresh_at(2)[of h "length h" v] B
    by (simp add: addHandS_def add.assoc)
next
  case W
  have "(h @ freshObjects (length h) v)[length h + (length (board v) + 2) := OHand hm]
        = h @ freshObjects (length h) (v\<lparr>hands := (hands v)(W := hm)\<rparr>)" for hm
    by (simp only: update_append_fresh fresh_update_hand)
  then show ?thesis
    using assms fresh_at(3)[of h "length h" v] W
    by (simp add: addHandS_def add.assoc)
qed

lemma setTurn_fresh:
  assumes "length (board v) = k"
  shows "(h @ freshObjects (length h) v)
           [length h + k + 4 := OState (length h + k) (length h + k + 3) tn]
         = h @ freshObjects (length h) (v\<lparr>turn := tn\<rparr>)"
proof -
  have "(h @ freshObjects (length h) v)
           [length h + (length (board v) + 4)
              := OState (length h + length (board v)) (length h + length (board v) + 3) tn]
         = h @ freshObjects (length h) (v\<lparr>turn := tn\<rparr>)"
    by (simp only: update_append_fresh fresh_update_turn)
  with assms show ?thesis by (simp add: add.assoc)
qed

lemma length_setCell: "length (setCell b r c v) = length b"
  by (simp add: setCell_def)

lemma makeMoveS_refines:
  assumes rs: "readState h a = Some s"
  shows "makeMoveS h a m =
           (case makeMove s m of Inl e \<Rightarrow> Inl e | Inr ns \<Rightarrow> Inr (buildState h ns))"
proof -
  define n where "n = length h"
  define k where "k = length (board s)"
  define H where "H = (\<lambda>v. h @ freshObjects (length h) v)"
  define mine where "mine = (if turn s = B then n + k + 1 else n + k + 2)"
  have dc: "deepClone h a = Some (n + k + 4, H s)"
    by (simp add: deepClone_def rs buildState_def n_def k_def H_def)
  have st: "objAt (H s) (n + k + 4) = Some (OState (n + k) (n + k + 3) (turn s))"
    and bo: "objAt (H s) (n + k) = Some (OBoard [n..<n + k])"
    and hs: "objAt (H s) (n + k + 3) = Some (OHands (n + k + 1) (n + k + 2))"
    unfolding H_def n_def k_def by (rule fresh_at)+
  have bs: "\<And>v. length (board v) = k \<Longrightarrow> buildState h v = (n + k + 4, H v)"
    by (simp add: buildState_def n_def H_def)
  have rd: "\<And>v r c. length (board v) = k \<Longrightarrow>
      readCellS (H v) [n..<n + k] r c = (if r \<ge> k then Inl TypeError else Inr (cellAt (board v) r c))"
    unfolding H_def n_def by (rule readCellS_fresh)
  have wr: "\<And>v r c x. length (board v) = k \<Longrightarrow>
      writeCellS (H v) [n..<n + k] r c x
        = (if r \<ge> k then Inl TypeError else Inr (H (v\<lparr>board := setCell (board v) r c x\<rparr>)))"
    unfolding H_def n_def by (rule writeCellS_fresh)
  have ah: "\<And>v x d. length (board v) = k \<Longrightarrow>
      addHandS (H v) mine x d
        = Inr (H (v\<lparr>hands := (hands v)(turn s := (hands v (turn s))(x \<mapsto> hcount (hands v (turn s)) x + d))\<rparr>))"
    unfolding H_def n_def mine_def by (rule addHandS_fresh)
  have tu: "\<And>v tn. length (board v) = k \<Longrightarrow>
      (H v)[n + k + 4 := OState (n + k) (n + k + 3) tn] = H (v\<lparr>turn := tn\<rparr>)"
    unfolding H_def n_def by (rule setTurn_fresh)
  show ?thesis
  proof (cases m)
    case (DropMove x dst)
    obtain r c where dst: "dst = (r, c)" by (cases dst)
    have e: "makeMoveS h a m =
        bindE (writeCellS (H s) [n..<n + k] r c (Some \<lparr>t = x, p = turn s, pr = False\<rparr>)) (\<lambda>h2.
        bindE (addHandS h2 mine x (- 1)) (\<lambda>h3.
        Inr (n + k + 4, h3[n + k + 4 := OState (n + k) (n + k + 3) (enemy (turn s))])))"
      by (simp add: makeMoveS_def dc st bo hs DropMove dst mine_def)
    show ?thesis
    proof (cases "r \<ge> k")
      case True
      then have "makeMoveS h a m = Inl TypeError"
        by (simp add: e wr[OF k_def[symmetric]] bindE_def)
      moreover from True have "makeMove s m = Inl TypeError"
        by (simp add: makeMove_def DropMove dst k_def)
      ultimately show ?thesis by simp
    next
      case False
      define v1 where "v1 = s\<lparr>board := setCell (board s) r c (Some \<lparr>t = x, p = turn s, pr = False\<rparr>)\<rparr>"
      define v2 where "v2 = v1\<lparr>hands := (hands v1)(turn s := (hands v1 (turn s))(x \<mapsto> hcount (hands v1 (turn s)) x - 1))\<rparr>"
      define v3 where "v3 = v2\<lparr>turn := enemy (turn s)\<rparr>"
      have l1: "length (board v1) = k" and l2: "length (board v2) = k" and l3: "length (board v3) = k"
        by (simp_all add: v1_def v2_def v3_def k_def length_setCell)
      have "makeMoveS h a m = Inr (n + k + 4, H v3)"
        using False
        by (simp add: e wr[OF k_def[symmetric]] bindE_def v1_def[symmetric]
              ah[OF l1] v2_def[symmetric] tu[OF l2] v3_def[symmetric])
      moreover have "makeMove s m = Inr v3"
        using False
        by (simp add: makeMove_def DropMove dst k_def v3_def v2_def v1_def)
      ultimately show ?thesis
        by (simp add: bs[OF l3])
    qed
  next
    case (BoardMove src dst pro)
    obtain fr fc where src: "src = (fr, fc)" by (cases src)
    obtain tr tc where dst: "dst = (tr, tc)" by (cases dst)
    have e: "makeMoveS h a m =
        bindE (readCellS (H s) [n..<n + k] fr fc) (\<lambda>piece.
        bindE (readCellS (H s) [n..<n + k] tr tc) (\<lambda>captured.
        case piece of
          None \<Rightarrow> Inl NotAPiece
        | Some pc \<Rightarrow>
            bindE (case captured of
                     None \<Rightarrow> Inr (H s)
                   | Some cp \<Rightarrow> addHandS (H s) mine (t (demote cp)) 1) (\<lambda>h2.
            bindE (writeCellS h2 [n..<n + k] tr tc
                     (Some (if pro then promotePiece pc else pc))) (\<lambda>h3.
            bindE (writeCellS h3 [n..<n + k] fr fc None) (\<lambda>h4.
            Inr (n + k + 4, h4[n + k + 4 := OState (n + k) (n + k + 3) (enemy (turn s))]))))))"
      by (simp add: makeMoveS_def dc st bo hs BoardMove src dst mine_def cong: option.case_cong)
    show ?thesis
    proof (cases "fr \<ge> k \<or> tr \<ge> k")
      case True
      then have "makeMoveS h a m = Inl TypeError"
        by (auto simp: e rd[OF k_def[symmetric]] bindE_def)
      moreover from True have "makeMove s m = Inl TypeError"
        by (auto simp: makeMove_def BoardMove src dst k_def)
      ultimately show ?thesis by simp
    next
      case False
      then have fr: "\<not> fr \<ge> k" and tr: "\<not> tr \<ge> k" by auto
      show ?thesis
      proof (cases "cellAt (board s) fr fc")
        case None
        with fr tr have "makeMoveS h a m = Inl NotAPiece"
          by (simp add: e rd[OF k_def[symmetric]] bindE_def)
        moreover from None fr tr have "makeMove s m = Inl NotAPiece"
          by (simp add: makeMove_def BoardMove src dst k_def)
        ultimately show ?thesis by simp
      next
        case (Some pc)
        define hs1 where "hs1 = (case cellAt (board s) tr tc of
                              None \<Rightarrow> hands s
                            | Some cp \<Rightarrow>
                                (hands s)(turn s := (hands s (turn s))
                                   (t (demote cp) \<mapsto> hcount (hands s (turn s)) (t (demote cp)) + 1)))"
        define v1 where "v1 = s\<lparr>hands := hs1\<rparr>"
        define v2 where "v2 = v1\<lparr>board := setCell (board v1) tr tc (Some (if pro then promotePiece pc else pc))\<rparr>"
        define v3 where "v3 = v2\<lparr>board := setCell (board v2) fr fc None\<rparr>"
        define v4 where "v4 = v3\<lparr>turn := enemy (turn s)\<rparr>"
        have l1: "length (board v1) = k" and l2: "length (board v2) = k"
          and l3: "length (board v3) = k" and l4: "length (board v4) = k"
          by (simp_all add: v1_def v2_def v3_def v4_def k_def length_setCell)
        have cap: "(case cellAt (board s) tr tc of
                     None \<Rightarrow> Inr (H s)
                   | Some cp \<Rightarrow> addHandS (H s) mine (t (demote cp)) 1) = Inr (H v1)"
          by (cases "cellAt (board s) tr tc")
             (simp_all add: ah[OF k_def[symmetric]] v1_def hs1_def)
        have "makeMoveS h a m = Inr (n + k + 4, H v4)"
          using fr tr
          by (simp add: e rd[OF k_def[symmetric]] Some bindE_def cap wr[OF l1] v2_def[symmetric]
                wr[OF l2] v3_def[symmetric] tu[OF l3] v4_def[symmetric])
        moreover have "makeMove s m = Inr v4"
          using fr tr Some
          by (simp add: makeMove_def BoardMove src dst k_def Let_def
                v4_def v3_def v2_def v1_def hs1_def)
        ultimately show ?thesis
          by (simp add: bs[OF l4])
      qed
    qed
  qed
qed

lemma makeMoveS_frame_any:
  assumes "makeMoveS h a m = Inr (a', h')"
  shows "length h \<le> a' \<and> take (length h) h' = h"
proof -
  from assms obtain s where rs: "readState h a = Some s"
    by (cases "readState h a") (auto simp: makeMoveS_def deepClone_def)
  from assms makeMoveS_refines[OF rs, of m] obtain ns where "buildState h ns = (a', h')"
    by (auto split: sum.splits)
  then show ?thesis
    by (auto simp: buildState_def)
qed

text \<open>
  C8. Let the store hold a position \<open>s\<close> with a nine by nine board at address \<open>a\<close>, and
  let \<open>m\<close> be a pseudo-legal move of \<open>s\<close>. Then \<^verbatim>\<open>makeMove\<close> returns normally, the address
  it returns was not allocated before the call and holds the position that the
  value-level \<open>makeMove\<close> computes, that position is made of objects allocated by the call
  alone (it reads the same whatever the old objects are), every object that existed before
  the call is unchanged, and the argument still reads as \<open>s\<close>: every board square, every
  hand entry of both sides and the turn.
\<close>

theorem makeMoveS_leaves_argument:
  assumes "readState h a = Some s" and "wf_board (board s)" and "m \<in> set (genAllPseudo s)"
  shows "\<exists>a' h' ns. makeMoveS h a m = Inr (a', h') \<and> makeMove s m = Inr ns \<and>
           readState h' a' = Some ns \<and>
           length h \<le> a' \<and> take (length h) h' = h \<and>
           (\<forall>g. length g = length h \<longrightarrow> readState (g @ drop (length h) h') a' = Some ns) \<and>
           readState h' a = Some s"
proof -
  from makeMove_pseudo[OF assms(2,3)] obtain ns where ns: "makeMove s m = Inr ns" by blast
  obtain a' h' where b: "buildState h ns = (a', h')" by (cases "buildState h ns")
  from makeMoveS_refines[OF assms(1), of m] ns b have mm: "makeMoveS h a m = Inr (a', h')"
    by simp
  from b have a': "a' = length h + length (board ns) + 4" and h': "h' = h @ freshObjects (length h) ns"
    by (simp_all add: buildState_def)
  have new: "readState h' a' = Some ns"
    using b by (rule readState_buildState)
  have old: "readState h' a = Some s"
    unfolding h' using assms(1) by (rule readState_extend)
  have sep: "\<forall>g. length g = length h \<longrightarrow> readState (g @ drop (length h) h') a' = Some ns"
  proof (intro allI impI)
    fix g :: store assume g: "length g = length h"
    have "buildState g ns = (a', g @ drop (length h) h')"
      by (simp add: buildState_def a' h' g)
    then show "readState (g @ drop (length h) h') a' = Some ns"
      by (rule readState_buildState)
  qed
  from mm ns new old sep a' h' show ?thesis
    by auto
qed

lemma exStore_initial: "buildState [] initialState = (13, exStore)"
  by (simp add: exStore_def buildState_def initialState_def startPosition_def Let_def BOARD_SIZE_def)

theorem makeMoveS_leaves_argument_witness:
  "readState exStore 13 = Some initialState \<and> wf_board (board initialState) \<and>
   BoardMove (6, 4) (5, 4) False \<in> set (genAllPseudo initialState) \<and>
   (\<exists>a' h' ns. makeMoveS exStore 13 (BoardMove (6, 4) (5, 4) False) = Inr (a', h') \<and>
      makeMove initialState (BoardMove (6, 4) (5, 4) False) = Inr ns \<and>
      readState h' a' = Some ns \<and> length exStore \<le> a' \<and>
      take (length exStore) h' = exStore \<and> readState h' 13 = Some initialState)"
proof -
  have a: "readState exStore 13 = Some initialState"
    using exStore_initial by (rule readState_buildState)
  have b: "wf_board (board initialState)"
    by (simp add: initialState_def wf_startPosition)
  have c: "BoardMove (6, 4) (5, 4) False \<in> set (genAllPseudo initialState)"
    by (simp add: genAllPseudo_initial)
  from makeMoveS_leaves_argument [OF a b c] a b c show ?thesis
    by blast
qed

section \<open>Hand counts under \<^verbatim>\<open>makeMove\<close>\<close>

lemma makeMove_drop_count:
  "r < length (board s) \<Longrightarrow>
     \<exists>ns. makeMove s (DropMove x (r, c)) = Inr ns \<and>
          hcount (hands ns (turn s)) x = hcount (hands s (turn s)) x - 1"
  by (simp add: makeMove_def hcount_def)

lemma handsNonneg_iff: "handsNonneg s \<longleftrightarrow> (\<forall>pl x. 0 \<le> hcount (hands s pl) x)"
proof -
  have "\<And>Q. (\<forall>pl. Q pl) \<longleftrightarrow> Q B \<and> Q W"
    by (metis side.exhaust)
  then show ?thesis
    by (simp add: handsNonneg_def list_all_iff set_TYPES)
qed

lemma makeMove_nonneg:
  assumes "wf_board (board s)" and "handsNonneg s" and "m \<in> set (genAllPseudo s)"
  shows "\<exists>ns. makeMove s m = Inr ns \<and> handsNonneg ns"
proof -
  from makeMove_pseudo[OF assms(1,3)] obtain ns where ns: "makeMove s m = Inr ns" by blast
  from assms(2) have nn: "\<And>pl x. 0 \<le> hcount (hands s pl) x" by (simp add: handsNonneg_iff)
  have "\<And>pl x. 0 \<le> hcount (hands ns pl) x"
  proof (cases m)
    case (BoardMove src dst pro)
    fix pl x
    from ns BoardMove nn[of pl x] nn[of "turn s"] show "0 \<le> hcount (hands ns pl) x"
      by (cases src; cases dst)
         (auto simp: makeMove_def Let_def hcount_def split: if_splits option.splits)
  next
    case (DropMove y dst)
    fix pl x
    from pseudo_DropMove[of y dst s] assms(3) DropMove have "hcount (hands s (turn s)) y \<noteq> 0" by simp
    with nn[of "turn s" y] have "1 \<le> hcount (hands s (turn s)) y" by simp
    with ns DropMove nn[of pl x] show "0 \<le> hcount (hands ns pl) x"
      by (cases dst) (auto simp: makeMove_def hcount_def split: if_splits option.splits)
  qed
  with ns show ?thesis by (simp add: handsNonneg_iff)
qed

lemma makeMove_pseudo_wf:
  assumes wf: "wf_board (board s)" and m: "m \<in> set (genAllPseudo s)" and ns: "makeMove s m = Inr ns"
  shows "wf_board (board ns)"
proof (cases m)
  case (BoardMove src dst pro)
  obtain fr fc where src: "src = (fr, fc)" by (cases src)
  obtain tr tc where dst: "dst = (tr, tc)" by (cases dst)
  from pseudo_BoardMove[of src dst pro s] m BoardMove src dst have
    rng: "fr < 9" "fc < 9" "tr < 9" "tc < 9" by auto
  from ns BoardMove src dst obtain x where
    "board ns = setCell (setCell (board s) tr tc x) fr fc None"
    by (auto simp: makeMove_def Let_def split: if_splits option.splits)
  with wf_board_setCell[OF wf_board_setCell[OF wf rng(3,4)] rng(1,2)] show ?thesis
    by simp
next
  case (DropMove x dst)
  obtain r c where dst: "dst = (r, c)" by (cases dst)
  from pseudo_DropMove[of x dst s] m DropMove dst have rng: "r < 9" "c < 9" by auto
  from ns DropMove dst obtain y where "board ns = setCell (board s) r c y"
    by (auto simp: makeMove_def split: if_splits)
  with wf_board_setCell[OF wf rng] show ?thesis by simp
qed

lemma playMoves_nonneg:
  "wf_board (board s) \<Longrightarrow> handsNonneg s \<Longrightarrow> playMoves s ms = Some s' \<Longrightarrow>
     handsNonneg s' \<and> wf_board (board s')"
proof (induction ms arbitrary: s)
  case Nil
  then show ?case by simp
next
  case (Cons m ms)
  from Cons.prems(3) obtain ns where
    m: "m \<in> set (genAllPseudo s)" and ns: "makeMove s m = Inr ns" and rest: "playMoves ns ms = Some s'"
    by (auto split: if_splits sum.splits)
  from makeMove_nonneg[OF Cons.prems(1,2) m] ns have "handsNonneg ns" by simp
  moreover from makeMove_pseudo_wf[OF Cons.prems(1) m ns] have "wf_board (board ns)" .
  ultimately show ?case using Cons.IH rest by blast
qed

text \<open>
  C3, as the source has it. A drop whose piece type has hand count zero for the mover
  does not fail (when its row exists): \<^verbatim>\<open>makeMove\<close> returns a position in which that
  count is -1. Hand counts stay at or above zero along moves that come from the
  generator: on a nine by nine board whose hand counts are all at least zero, every move
  of \<^verbatim>\<open>genAllPseudo\<close> is applied normally and leaves a nine by nine board and hand counts
  that are all at least zero, and so does every sequence of such moves.
\<close>

theorem makeMove_hand_counts:
  "(r < length (board s) \<and> hcount (hands s (turn s)) x = 0 \<longrightarrow>
      (\<exists>ns. makeMove s (DropMove x (r, c)) = Inr ns \<and> hcount (hands ns (turn s)) x = - 1))
   \<and> (wf_board (board s) \<and> handsNonneg s \<and> m \<in> set (genAllPseudo s) \<longrightarrow>
      (\<exists>ns. makeMove s m = Inr ns \<and> handsNonneg ns \<and> wf_board (board ns)))
   \<and> (wf_board (board s) \<and> handsNonneg s \<and> playMoves s ms = Some s' \<longrightarrow>
      handsNonneg s' \<and> wf_board (board s'))"
proof -
  have a: "r < length (board s) \<and> hcount (hands s (turn s)) x = 0 \<longrightarrow>
      (\<exists>ns. makeMove s (DropMove x (r, c)) = Inr ns \<and> hcount (hands ns (turn s)) x = - 1)"
    using makeMove_drop_count[of r s x c] by auto
  have b: "wf_board (board s) \<and> handsNonneg s \<and> m \<in> set (genAllPseudo s) \<longrightarrow>
      (\<exists>ns. makeMove s m = Inr ns \<and> handsNonneg ns \<and> wf_board (board ns))"
    using makeMove_nonneg[of s m] makeMove_pseudo_wf[of s m] by blast
  have c: "wf_board (board s) \<and> handsNonneg s \<and> playMoves s ms = Some s' \<longrightarrow>
      handsNonneg s' \<and> wf_board (board s')"
    using playMoves_nonneg[of s ms s'] by blast
  from a b c show ?thesis by blast
qed

theorem makeMove_hand_counts_witness:
  "4 < length (board exPosition) \<and> hcount (hands exPosition (turn exPosition)) Knight = 0 \<and>
   (\<exists>ns. makeMove exPosition (DropMove Knight (4, 4)) = Inr ns \<and>
         hcount (hands ns (turn exPosition)) Knight = - 1) \<and>
   wf_board (board exPosition) \<and> handsNonneg exPosition \<and>
   DropMove Pawn (4, 3) \<in> set (genAllPseudo exPosition) \<and>
   (\<exists>ns. makeMove exPosition (DropMove Pawn (4, 3)) = Inr ns \<and> handsNonneg ns \<and>
         playMoves exPosition [DropMove Pawn (4, 3)] = Some ns)"
proof -
  have a: "4 < length (board exPosition)"
    using wf_exPosition by (simp add: wf_board_def BOARD_SIZE_def)
  have b: "hcount (hands exPosition (turn exPosition)) Knight = 0"
    by (simp add: exPosition_def hcount_def)
  have c: "handsNonneg exPosition"
    by (simp add: handsNonneg_def exPosition_def hcount_def TYPES_def)
  have d: "DropMove Pawn (4, 3) \<in> set (genAllPseudo exPosition)"
    by code_simp
  from makeMove_hand_counts [of 4 exPosition Knight 4 "DropMove Pawn (4, 3)"] a b c d wf_exPosition
  obtain ns where ns: "makeMove exPosition (DropMove Pawn (4, 3)) = Inr ns" "handsNonneg ns"
    by blast
  with d have e: "playMoves exPosition [DropMove Pawn (4, 3)] = Some ns"
    by simp
  from makeMove_hand_counts [of 4 exPosition Knight 4 "DropMove Pawn (4, 3)" "[DropMove Pawn (4, 3)]" ns]
    a b c d e ns wf_exPosition
  show ?thesis by simp
qed

text \<open>
  C3, as the specification states it, fails: in the initial position Sente holds no pawn,
  the square (4,4) is empty, and \<^verbatim>\<open>makeMove\<close> applied to the pawn drop on (4,4) returns
  a position in which Sente's pawn count is -1.
\<close>

theorem makeMove_drop_zero_counterexample:
  "cellAt (board initialState) 4 4 = None \<and>
   hcount (hands initialState (turn initialState)) Pawn = 0 \<and>
   (\<exists>ns. makeMove initialState (DropMove Pawn (4, 4)) = Inr ns \<and>
         hcount (hands ns (turn initialState)) Pawn = - 1)"
proof -
  have "cellAt (board initialState) 4 4 = None"
    by code_simp
  then show ?thesis
    by (simp add: initialState_def makeMove_def hcount_def startPosition_def Let_def)
qed

end
